theory Spec2Isabelle
  imports Main "HOL-Library.AList" "HOL-Library.Word"
begin

section \<open>Python values\<close>

text \<open>
  The payloads and the snapshot of \<^verbatim>\<open>network.py\<close> are dynamically typed
  (\<^verbatim>\<open>Dict[str, Any]\<close>). The model keeps the values the program builds them from:
  \<^verbatim>\<open>None\<close>, unbounded integers, strings, lists and dicts. A dict is an association
  list in insertion order with \<^const>\<open>map_of\<close> for \<^verbatim>\<open>d[k]\<close>,
  \<^const>\<open>AList.update\<close> for \<^verbatim>\<open>d[k] = v\<close> (in place when the key exists, appended
  otherwise) and \<^const>\<open>AList.delete\<close> for \<^verbatim>\<open>del d[k]\<close>. Dict keys are the
  hashable values among these. Floats, bools and tuples are not modelled, so that
  equality of keys is the structural one.
\<close>

datatype pykey = KNone | KInt int | KStr string

datatype pyval =
    PNone
  | PInt int
  | PStr string
  | PList "pyval list"
  | PDict "(pykey \<times> pyval) list"

type_synonym pydict = "(pykey \<times> pyval) list"

datatype exn =
    KeyError
  | TypeError
  | OverflowError
  | UnpicklingError
  | SocketTimeout
  | OSError
  | OutOfModel

text \<open>\<^verbatim>\<open>hash(x)\<close>: lists and dicts are unhashable.\<close>

fun py_key :: "pyval \<Rightarrow> pykey option" where
  "py_key PNone = Some KNone"
| "py_key (PInt i) = Some (KInt i)"
| "py_key (PStr s) = Some (KStr s)"
| "py_key (PList xs) = None"
| "py_key (PDict d) = None"

text \<open>
  \<^verbatim>\<open>obj['name']\<close> with a string literal: a dict looks the key up (KeyError when
  missing); every other value of the model raises TypeError (not subscriptable, or
  indices must be integers).
\<close>

fun subscript :: "pyval \<Rightarrow> string \<Rightarrow> exn + pyval" where
  "subscript (PDict d) k = (case map_of d (KStr k) of None \<Rightarrow> Inl KeyError | Some v \<Rightarrow> Inr v)"
| "subscript PNone k = Inl TypeError"
| "subscript (PInt i) k = Inl TypeError"
| "subscript (PStr s) k = Inl TypeError"
| "subscript (PList xs) k = Inl TypeError"

text \<open>
  \<^verbatim>\<open>x in table\<close>. On a dict it hashes \<^verbatim>\<open>x\<close> and tests the keys. \<^verbatim>\<open>None\<close> and
  integers are not iterable; a string accepts only a string on the left. Membership
  in a list and substring search are left out of the model (outcome
  \<^const>\<open>OutOfModel\<close>): the program creates and replaces the tables of the snapshot
  as dicts only (\<^verbatim>\<open>network.py\<close> 33-39, \<^verbatim>\<open>game.py\<close> 150-155 and 318-322). The
  properties that depend on a table state it to be a dict.
\<close>

fun contains :: "pyval \<Rightarrow> pyval \<Rightarrow> exn + bool" where
  "contains (PDict d) x =
     (case py_key x of None \<Rightarrow> Inl TypeError | Some k \<Rightarrow> Inr (map_of d k \<noteq> None))"
| "contains PNone x = Inl TypeError"
| "contains (PInt i) x = Inl TypeError"
| "contains (PStr s) (PStr t) = Inl OutOfModel"
| "contains (PStr s) x = Inl TypeError"
| "contains (PList xs) x = Inl OutOfModel"

text \<open>\<^verbatim>\<open>d.get(k, default)\<close> on a dict.\<close>

definition dict_get :: "pydict \<Rightarrow> pykey \<Rightarrow> pyval \<Rightarrow> pyval" where
  "dict_get d k dflt = (case map_of d k of None \<Rightarrow> dflt | Some v \<Rightarrow> v)"

text \<open>\<^verbatim>\<open>a - b\<close>: defined on two integers, TypeError on every other pair of the model.\<close>

fun py_sub :: "pyval \<Rightarrow> pyval \<Rightarrow> exn + int" where
  "py_sub (PInt a) (PInt b) = Inr (a - b)"
| "py_sub a b = Inl TypeError"

text \<open>
  \<^verbatim>\<open>table[k] = v\<close>: a dict stores; \<^verbatim>\<open>None\<close>, integers and strings do not support
  item assignment; assignment to a list index is left out of the model.
\<close>

fun setitem :: "pyval \<Rightarrow> pykey \<Rightarrow> pyval \<Rightarrow> exn + pyval" where
  "setitem (PDict d) k v = Inr (PDict (AList.update k v d))"
| "setitem (PList xs) k v = Inl OutOfModel"
| "setitem PNone k v = Inl TypeError"
| "setitem (PInt i) k v = Inl TypeError"
| "setitem (PStr s) k v = Inl TypeError"

section \<open>Messages and the environment\<close>

type_synonym byte = "8 word"

type_synonym sock = nat

type_synonym address = "string \<times> nat"

text \<open>
  \<^verbatim>\<open>NetworkMessage\<close>: a type tag, a payload and the reading of \<^verbatim>\<open>time.time()\<close> at
  construction.
\<close>

record message =
  mtype :: string
  mdata :: pyval
  timestamp :: int

text \<open>
  What the code takes from outside the repository: the clock (its \<open>n\<close>-th reading),
  the connections on which \<^verbatim>\<open>sendall\<close> raises (a connection either takes every
  frame or none), and the two functions of the \<^verbatim>\<open>pickle\<close> library.
  \<^verbatim>\<open>pickle.dumps\<close> is total on the values of the model; \<^verbatim>\<open>pickle.loads\<close> yields
  \<open>None\<close> when it raises or when what it builds is not a \<^verbatim>\<open>NetworkMessage\<close> (the
  first attribute access then raises in the same \<^verbatim>\<open>try\<close> block).
\<close>

record env =
  clock :: "nat \<Rightarrow> int"
  send_fails :: "sock \<Rightarrow> bool"
  dumps :: "message \<Rightarrow> byte list"
  loads :: "byte list \<Rightarrow> message option"

section \<open>The host\<close>

text \<open>
  \<^verbatim>\<open>GameServer\<close>. A connection object is identified by a number. \<open>lock\<close> is
  \<^verbatim>\<open>self.lock\<close>, true while held; \<open>time_calls\<close> counts the readings of the clock
  taken so far.
\<close>

record GameServer =
  clients :: "(int \<times> sock) list"
  client_addresses :: "(int \<times> address) list"
  next_player_id :: int
  running :: bool
  game_state :: pydict
  lock :: bool
  time_calls :: nat

definition MAX_PLAYERS :: nat where
  "MAX_PLAYERS = 4"

text \<open>\<^verbatim>\<open>GameServer.__init__\<close>.\<close>

definition init_server :: GameServer where
  "init_server =
     \<lparr>clients = [], client_addresses = [], next_player_id = 0, running = False,
      game_state =
        [(KStr ''players'', PDict []), (KStr ''enemies'', PDict []),
         (KStr ''items'', PDict []), (KStr ''rooms'', PList []),
         (KStr ''dungeon_level'', PInt 1)],
      lock = False, time_calls = 0\<rparr>"

text \<open>
  What a thread observes of a call: it returns, it raises, or it waits for ever
  on \<^verbatim>\<open>self.lock\<close> (a \<^verbatim>\<open>threading.Lock\<close> is not reentrant). Calls are taken one
  at a time, so the lock is found held only when the thread itself holds it or
  when a thread is stuck holding it; acquiring it then never ends. Every call
  also yields the host as it leaves it and the network operations it performed,
  in order. A send records whether the calling thread held the lock.
\<close>

datatype 'a outcome = Returned 'a | Raised exn | Blocked

datatype event = Sent bool sock "byte list" | Closed sock

type_synonym 'a result = "'a outcome \<times> GameServer \<times> event list"

text \<open>\<^verbatim>\<open>NetworkMessage(msg_type, data)\<close>: reads the clock once.\<close>

definition NetworkMessage :: "env \<Rightarrow> GameServer \<Rightarrow> string \<Rightarrow> pyval \<Rightarrow> message \<times> GameServer" where
  "NetworkMessage e s t d =
     (\<lparr>mtype = t, mdata = d, timestamp = clock e (time_calls s)\<rparr>,
      s\<lparr>time_calls := Suc (time_calls s)\<rparr>)"

subsection \<open>Frames\<close>

text \<open>\<^verbatim>\<open>size.to_bytes(4, 'big')\<close>: OverflowError from \<open>2^32\<close> on.\<close>

definition to_bytes4 :: "nat \<Rightarrow> byte list option" where
  "to_bytes4 n =
     (if n < 2 ^ 32
      then Some [of_nat (n div 2 ^ 24), of_nat (n div 2 ^ 16), of_nat (n div 2 ^ 8), of_nat n]
      else None)"


text \<open>
  \<^verbatim>\<open>_send_to_client\<close>: pickles the message, prefixes the length and writes the
  frame. The first argument says whether the caller holds the lock.
\<close>

definition send_to_client :: "env \<Rightarrow> bool \<Rightarrow> sock \<Rightarrow> message \<Rightarrow> exn + event" where
  "send_to_client e held c m =
     (let payload = dumps e m; n = length payload in
      case to_bytes4 n of
        None \<Rightarrow> Inl OverflowError
      | Some header \<Rightarrow>
          if send_fails e c then Inl OSError else Inr (Sent held c (header @ payload)))"


subsection \<open>Reading from a connection\<close>







subsection \<open>Broadcast and removal\<close>

text \<open>
  The \<^verbatim>\<open>for\<close> loop of \<^verbatim>\<open>_broadcast\<close> over \<^verbatim>\<open>self.clients.items()\<close>: the sessions
  whose send raised, and the frames written.
\<close>

fun send_each :: "env \<Rightarrow> bool \<Rightarrow> message \<Rightarrow> int option \<Rightarrow> (int \<times> sock) list \<Rightarrow> int list \<times> event list" where
  "send_each e held m exclude [] = ([], [])"
| "send_each e held m exclude ((player_id, c) # cs) =
     (let (dead, evs) = send_each e held m exclude cs in
      if exclude = Some player_id then (dead, evs)
      else
        (case send_to_client e held c m of
           Inl x \<Rightarrow> (player_id # dead, evs)
         | Inr ev \<Rightarrow> (dead, ev # evs)))"

text \<open>
  \<^verbatim>\<open>_broadcast\<close> as it runs inside \<^verbatim>\<open>with self.lock\<close>: when a send has failed,
  the first \<^verbatim>\<open>_remove_client\<close> of the clean-up acquires the lock the thread
  already holds, and never returns.
\<close>

definition broadcast_locked :: "env \<Rightarrow> GameServer \<Rightarrow> message \<Rightarrow> int option \<Rightarrow> unit result" where
  "broadcast_locked e s m exclude =
     (let (dead, evs) = send_each e True m exclude (clients s) in
      (if dead = [] then Returned () else Blocked, s, evs))"

text \<open>Leaving a \<^verbatim>\<open>with self.lock\<close> block, by return or by exception.\<close>

definition release :: "'a result \<Rightarrow> 'a result" where
  "release r =
     (case r of
        (Blocked, s, evs) \<Rightarrow> (Blocked, s, evs)
      | (st, s, evs) \<Rightarrow> (st, s\<lparr>lock := False\<rparr>, evs))"

text \<open>\<^verbatim>\<open>del self.game_state[name][k]\<close>, for a table that is a dict.\<close>

definition table_del :: "pydict \<Rightarrow> string \<Rightarrow> pykey \<Rightarrow> pydict" where
  "table_del gs name k =
     (case map_of gs (KStr name) of
        Some (PDict d) \<Rightarrow> AList.update (KStr name) (PDict (AList.delete k d)) gs
      | _ \<Rightarrow> gs)"

text \<open>\<^verbatim>\<open>self.game_state[name][k] = v\<close>, for a table that is a dict.\<close>

definition table_set :: "pydict \<Rightarrow> string \<Rightarrow> pykey \<Rightarrow> pyval \<Rightarrow> pydict" where
  "table_set gs name k v =
     (case map_of gs (KStr name) of
        Some (PDict d) \<Rightarrow> AList.update (KStr name) (PDict (AList.update k v d)) gs
      | _ \<Rightarrow> gs)"

text \<open>
  \<^verbatim>\<open>_remove_client\<close>. The broadcast of \<^verbatim>\<open>player_left\<close> runs under the lock.
\<close>

definition remove_client :: "env \<Rightarrow> GameServer \<Rightarrow> int \<Rightarrow> unit result" where
  "remove_client e s player_id =
     (if lock s then (Blocked, s, [])
      else
        (case map_of (clients s) player_id of
           None \<Rightarrow> (Returned (), s, [])
         | Some c \<Rightarrow>
             (let s1 = s\<lparr>lock := True,
                        clients := AList.delete player_id (clients s),
                        client_addresses := AList.delete player_id (client_addresses s)\<rparr>;
                  players = dict_get (game_state s1) (KStr ''players'') (PDict [])
              in
                (case contains players (PInt player_id) of
                   Inl x \<Rightarrow> (Raised x, s1\<lparr>lock := False\<rparr>, [Closed c])
                 | Inr present \<Rightarrow>
                     (let s2 = (if present
                                then s1\<lparr>game_state :=
                                          table_del (game_state s1) ''players'' (KInt player_id)\<rparr>
                                else s1);
                          (msg, s3) = NetworkMessage e s2 ''player_left''
                                        (PDict [(KStr ''player_id'', PInt player_id)]);
                          (st, s4, evs) = broadcast_locked e s3 msg None
                      in release (st, s4, Closed c # evs))))))"

text \<open>The clean-up loop of \<^verbatim>\<open>_broadcast\<close> over the dead sessions.\<close>

fun remove_each :: "env \<Rightarrow> GameServer \<Rightarrow> int list \<Rightarrow> unit result" where
  "remove_each e s [] = (Returned (), s, [])"
| "remove_each e s (p # ps) =
     (case remove_client e s p of
        (Returned u, s1, evs1) \<Rightarrow>
          (let (st, s2, evs2) = remove_each e s1 ps in (st, s2, evs1 @ evs2))
      | (Raised x, s1, evs1) \<Rightarrow> (Raised x, s1, evs1)
      | (Blocked, s1, evs1) \<Rightarrow> (Blocked, s1, evs1))"

text \<open>
  \<^verbatim>\<open>_broadcast\<close>; \<open>held\<close> says whether the calling thread holds the lock.
\<close>

definition broadcast :: "env \<Rightarrow> bool \<Rightarrow> GameServer \<Rightarrow> message \<Rightarrow> int option \<Rightarrow> unit result" where
  "broadcast e held s m exclude =
     (let (dead, evs) = send_each e held m exclude (clients s);
          (st, s1, evs1) = remove_each e s dead
      in (st, s1, evs @ evs1))"


subsection \<open>The router\<close>

text \<open>The branch \<^verbatim>\<open>player_update\<close> of \<^verbatim>\<open>_process_message\<close>, inside the lock.\<close>

definition player_update_effect :: "GameServer \<Rightarrow> int \<Rightarrow> message \<Rightarrow> unit result" where
  "player_update_effect s player_id m =
     (let gs = game_state s;
          gs1 = (if map_of gs (KStr ''players'') = None
                 then AList.update (KStr ''players'') (PDict []) gs else gs)
      in
        (case setitem (dict_get gs1 (KStr ''players'') PNone) (KInt player_id) (mdata m) of
           Inl x \<Rightarrow> (Raised x, s\<lparr>game_state := gs1\<rparr>, [])
         | Inr players \<Rightarrow>
             (Returned (), s\<lparr>game_state := AList.update (KStr ''players'') players gs1\<rparr>, [])))"

text \<open>The branch \<^verbatim>\<open>attack\<close>.\<close>

definition attack_effect :: "env \<Rightarrow> GameServer \<Rightarrow> int \<Rightarrow> message \<Rightarrow> unit result" where
  "attack_effect e s player_id m =
     (let (msg, s1) = NetworkMessage e s ''player_attack''
                        (PDict [(KStr ''player_id'', PInt player_id),
                                (KStr ''attack_data'', mdata m)])
      in broadcast e True s1 msg None)"

text \<open>
  The branch \<^verbatim>\<open>enemy_damage\<close>. \<^verbatim>\<open>enemy['hp'] -= damage\<close> reads the entry, subtracts
  and stores the difference into the enemy's dict, which is the one inside the
  snapshot. Once the membership test has answered \<open>True\<close> the table is a dict and
  the id one of its keys: the branches for anything else are never taken.
\<close>

definition enemy_damage_effect :: "env \<Rightarrow> GameServer \<Rightarrow> message \<Rightarrow> unit result" where
  "enemy_damage_effect e s m =
     (case subscript (mdata m) ''enemy_id'' of
        Inl x \<Rightarrow> (Raised x, s, [])
      | Inr enemy_id \<Rightarrow>
     (case subscript (mdata m) ''damage'' of
        Inl x \<Rightarrow> (Raised x, s, [])
      | Inr damage \<Rightarrow>
     (case contains (dict_get (game_state s) (KStr ''enemies'') (PDict [])) enemy_id of
        Inl x \<Rightarrow> (Raised x, s, [])
      | Inr False \<Rightarrow> (Returned (), s, [])
      | Inr True \<Rightarrow>
     (case (dict_get (game_state s) (KStr ''enemies'') (PDict []), py_key enemy_id) of
        (PDict enemies, Some k) \<Rightarrow>
          (case map_of enemies k of
             None \<Rightarrow> (Raised KeyError, s, [])
           | Some enemy \<Rightarrow>
          (case subscript enemy ''hp'' of
             Inl x \<Rightarrow> (Raised x, s, [])
           | Inr hp \<Rightarrow>
          (case py_sub hp damage of
             Inl x \<Rightarrow> (Raised x, s, [])
           | Inr hp' \<Rightarrow>
          (case setitem enemy (KStr ''hp'') (PInt hp') of
             Inl x \<Rightarrow> (Raised x, s, [])
           | Inr enemy' \<Rightarrow>
               (let s1 = s\<lparr>game_state := table_set (game_state s) ''enemies'' k enemy'\<rparr> in
                if hp' \<le> 0 then
                  (let s2 = s1\<lparr>game_state := table_del (game_state s1) ''enemies'' k\<rparr>;
                       (msg, s3) = NetworkMessage e s2 ''enemy_died''
                                     (PDict [(KStr ''enemy_id'', enemy_id),
                                             (KStr ''drops'',
                                              (case mdata m of
                                                 PDict d \<Rightarrow> dict_get d (KStr ''drops'') (PList [])
                                               | _ \<Rightarrow> PList []))])
                   in broadcast e True s3 msg None)
                else
                  (let (msg, s2) = NetworkMessage e s1 ''enemy_damaged''
                                     (PDict [(KStr ''enemy_id'', enemy_id),
                                             (KStr ''hp'', PInt hp')])
                   in broadcast e True s2 msg None))))))
      | _ \<Rightarrow> (Raised OutOfModel, s, [])))))"

text \<open>The branch \<^verbatim>\<open>pickup_item\<close>.\<close>

definition pickup_item_effect :: "env \<Rightarrow> GameServer \<Rightarrow> int \<Rightarrow> message \<Rightarrow> unit result" where
  "pickup_item_effect e s player_id m =
     (case subscript (mdata m) ''item_id'' of
        Inl x \<Rightarrow> (Raised x, s, [])
      | Inr item_id \<Rightarrow>
     (case contains (dict_get (game_state s) (KStr ''items'') (PDict [])) item_id of
        Inl x \<Rightarrow> (Raised x, s, [])
      | Inr False \<Rightarrow> (Returned (), s, [])
      | Inr True \<Rightarrow>
     (case py_key item_id of
        None \<Rightarrow> (Raised OutOfModel, s, [])
      | Some k \<Rightarrow>
          (let s1 = s\<lparr>game_state := table_del (game_state s) ''items'' k\<rparr>;
               (msg, s2) = NetworkMessage e s1 ''item_picked_up''
                             (PDict [(KStr ''item_id'', item_id),
                                     (KStr ''player_id'', PInt player_id)])
           in broadcast e True s2 msg None))))"

text \<open>\<^verbatim>\<open>_process_message\<close>: the whole chain runs inside \<^verbatim>\<open>with self.lock\<close>.\<close>

definition process_message :: "env \<Rightarrow> GameServer \<Rightarrow> int \<Rightarrow> message \<Rightarrow> unit result" where
  "process_message e s player_id m =
     (if lock s then (Blocked, s, [])
      else
        release
          (let s0 = s\<lparr>lock := True\<rparr> in
           if mtype m = ''player_update'' then player_update_effect s0 player_id m
           else if mtype m = ''attack'' then attack_effect e s0 player_id m
           else if mtype m = ''enemy_damage'' then enemy_damage_effect e s0 m
           else if mtype m = ''pickup_item'' then pickup_item_effect e s0 player_id m
           else (Returned (), s0, [])))"

subsection \<open>The broadcast loop and the collaborator's update\<close>

text \<open>
  One iteration of \<^verbatim>\<open>_update_loop\<close>, without its sleep. The clock is read three
  times: for \<^verbatim>\<open>start_time\<close> before the lock is taken, by the constructor of the
  message inside it, and for \<^verbatim>\<open>elapsed\<close> once the lock is released.
\<close>

definition update_tick :: "env \<Rightarrow> GameServer \<Rightarrow> unit result" where
  "update_tick e s =
     (let s_start = s\<lparr>time_calls := Suc (time_calls s)\<rparr> in
      if lock s_start then (Blocked, s_start, [])
      else
        (case release
                (let s0 = s_start\<lparr>lock := True\<rparr>;
                     (msg, s1) = NetworkMessage e s0 ''game_state'' (PDict (game_state s0))
                 in broadcast e True s1 msg None) of
           (Returned u, s2, evs) \<Rightarrow> (Returned (), s2\<lparr>time_calls := Suc (time_calls s2)\<rparr>, evs)
         | (Raised x, s2, evs) \<Rightarrow> (Raised x, s2, evs)
         | (Blocked, s2, evs) \<Rightarrow> (Blocked, s2, evs)))"

text \<open>\<^verbatim>\<open>dict.update(other)\<close>: stores the entries of \<open>other\<close> one after the other.\<close>

definition dict_update :: "pydict \<Rightarrow> pydict \<Rightarrow> pydict" where
  "dict_update d other = fold (\<lambda>(k, v). AList.update k v) other d"

text \<open>\<^verbatim>\<open>update_game_state\<close>.\<close>

definition update_game_state :: "GameServer \<Rightarrow> pydict \<Rightarrow> unit result" where
  "update_game_state s state_update =
     (if lock s then (Blocked, s, [])
      else (Returned (), s\<lparr>game_state := dict_update (game_state s) state_update\<rparr>, []))"

subsection \<open>Accepting a connection\<close>

text \<open>
  One iteration of \<^verbatim>\<open>_accept_connections\<close> for a connection that \<^verbatim>\<open>accept()\<close> has
  returned, in the three stretches between which the thread holds no lock: the
  capacity check, allocation and registration (lines 78-87), the welcome (lines
  90-93) and the announcement (lines 96-97).
\<close>

datatype accepted = Rejected | Admitted int

definition accept_register :: "GameServer \<Rightarrow> sock \<times> address \<Rightarrow> accepted result" where
  "accept_register s conn =
     (if length (clients s) \<ge> MAX_PLAYERS then (Returned Rejected, s, [Closed (fst conn)])
      else
        (let player_id = next_player_id s;
             s1 = s\<lparr>next_player_id := player_id + 1\<rparr>
         in
           if lock s1 then (Blocked, s1, [])
           else
             (Returned (Admitted player_id),
              s1\<lparr>clients := AList.update player_id (fst conn) (clients s1),
                 client_addresses := AList.update player_id (snd conn) (client_addresses s1)\<rparr>,
              [])))"

definition accept_welcome :: "env \<Rightarrow> GameServer \<Rightarrow> int \<Rightarrow> sock \<Rightarrow> unit result" where
  "accept_welcome e s player_id c =
     (let (msg, s1) = NetworkMessage e s ''welcome''
                        (PDict [(KStr ''player_id'', PInt player_id),
                                (KStr ''game_state'', PDict (game_state s))])
      in
        (case send_to_client e False c msg of
           Inl x \<Rightarrow> (Raised x, s1, [])
         | Inr ev \<Rightarrow> (Returned (), s1, [ev])))"

definition accept_announce :: "env \<Rightarrow> GameServer \<Rightarrow> int \<Rightarrow> unit result" where
  "accept_announce e s player_id =
     (let (msg, s1) = NetworkMessage e s ''player_joined''
                        (PDict [(KStr ''player_id'', PInt player_id)])
      in broadcast e False s1 msg (Some player_id))"

text \<open>
  The iteration as a whole. \<open>Returned (Admitted i)\<close>: the handler thread of session
  \<open>i\<close> has been started. \<open>Raised\<close>: the exception was caught and printed by the
  loop, which goes on to the next connection.
\<close>

definition accept_connection :: "env \<Rightarrow> GameServer \<Rightarrow> sock \<times> address \<Rightarrow> accepted result" where
  "accept_connection e s conn =
     (case accept_register s conn of
        (Returned (Admitted player_id), s1, evs1) \<Rightarrow>
          (case accept_welcome e s1 player_id (fst conn) of
             (Returned u, s2, evs2) \<Rightarrow>
               (case accept_announce e s2 player_id of
                  (Returned u', s3, evs3) \<Rightarrow>
                    (Returned (Admitted player_id), s3, evs1 @ evs2 @ evs3)
                | (Raised x, s3, evs3) \<Rightarrow> (Raised x, s3, evs1 @ evs2 @ evs3)
                | (Blocked, s3, evs3) \<Rightarrow> (Blocked, s3, evs1 @ evs2 @ evs3))
           | (Raised x, s2, evs2) \<Rightarrow> (Raised x, s2, evs1 @ evs2)
           | (Blocked, s2, evs2) \<Rightarrow> (Blocked, s2, evs1 @ evs2))
      | r \<Rightarrow> r)"


subsection \<open>The handler thread of a session\<close>











subsection \<open>Runs of the host\<close>

text \<open>\<^verbatim>\<open>start\<close>, when the bind succeeds.\<close>

definition start :: "GameServer \<Rightarrow> GameServer" where
  "start s = s\<lparr>running := True\<rparr>"

text \<open>
  The calls that reach a host, each taken as a whole: the accept loop's iteration
  for a new connection, a removal, a routed message, a tick of the broadcast loop
  and an update by the game logic.
\<close>

datatype op =
    Accept sock address
  | Remove int
  | Process int message
  | Tick
  | Update pydict

fun step :: "env \<Rightarrow> GameServer \<Rightarrow> op \<Rightarrow> GameServer \<times> event list" where
  "step e s (Accept c a) = snd (accept_connection e s (c, a))"
| "step e s (Remove i) = snd (remove_client e s i)"
| "step e s (Process i m) = snd (process_message e s i m)"
| "step e s Tick = snd (update_tick e s)"
| "step e s (Update u) = snd (update_game_state s u)"

fun run :: "env \<Rightarrow> GameServer \<Rightarrow> op list \<Rightarrow> GameServer" where
  "run e s [] = s"
| "run e s (x # xs) = run e (fst (step e s x)) xs"

fun trace :: "env \<Rightarrow> GameServer \<Rightarrow> op list \<Rightarrow> event list" where
  "trace e s [] = []"
| "trace e s (x # xs) = snd (step e s x) @ trace e (fst (step e s x)) xs"

text \<open>The identifiers under which the accepts of a run register a session, in order.\<close>

fun admitted :: "accepted outcome \<Rightarrow> int list" where
  "admitted (Returned (Admitted i)) = [i]"
| "admitted r = []"

fun assigned_ids :: "env \<Rightarrow> GameServer \<Rightarrow> op list \<Rightarrow> int list" where
  "assigned_ids e s [] = []"
| "assigned_ids e s (Accept c a # xs) =
     admitted (fst (accept_register s (c, a))) @ assigned_ids e (fst (step e s (Accept c a))) xs"
| "assigned_ids e s (x # xs) = assigned_ids e (fst (step e s x)) xs"

text \<open>The identifiers of the live sessions.\<close>

definition live_ids :: "GameServer \<Rightarrow> int set" where
  "live_ids s = fst ` set (clients s)"

subsection \<open>A small host for the examples\<close>

text \<open>
  A stand-in for \<^verbatim>\<open>pickle\<close> that is enough to run the examples: a message is
  written as the single byte that holds the length of its type tag, and the only
  byte string that can be read back is that of \<open>demo_message\<close>. The clock counts
  its readings and no send fails.
\<close>

definition demo_message :: message where
  "demo_message =
     \<lparr>mtype = ''player_update'', mdata = PDict [(KStr ''hp'', PInt 100)], timestamp = 0\<rparr>"

definition demo_env :: env where
  "demo_env =
     \<lparr>clock = int, send_fails = (\<lambda>c. False),
      dumps = (\<lambda>m. [of_nat (length (mtype m))]),
      loads = (\<lambda>bs. if bs = [13] then Some demo_message else None)\<rparr>"

text \<open>
  The host of the specification's scenarios: two sessions, and enemy \<open>7\<close> with
  \<open>hp = 60\<close>.
\<close>

definition scenario_host :: GameServer where
  "scenario_host =
     \<lparr>clients = [(0, 10), (1, 11)],
      client_addresses = [(0, (''10.0.0.2'', 50000)), (1, (''10.0.0.3'', 50001))],
      next_player_id = 2, running = True,
      game_state =
        [(KStr ''players'', PDict []),
         (KStr ''enemies'', PDict [(KInt 7, PDict [(KStr ''hp'', PInt 60)])]),
         (KStr ''items'', PDict [])],
      lock = False, time_calls = 0\<rparr>"


text \<open>A host at capacity.\<close>

definition full_host :: GameServer where
  "full_host =
     \<lparr>clients = [(0, 10), (1, 11), (2, 12), (3, 13)],
      client_addresses = [],
      next_player_id = 4, running = True,
      game_state = [(KStr ''players'', PDict [])],
      lock = False, time_calls = 0\<rparr>"

text \<open>Messages of the examples.\<close>

definition lethal_damage :: message where
  "lethal_damage =
     \<lparr>mtype = ''enemy_damage'',
      mdata = PDict [(KStr ''enemy_id'', PInt 7), (KStr ''damage'', PInt 60),
                     (KStr ''drops'', PList [PStr ''sword''])],
      timestamp = 5\<rparr>"

definition light_damage :: message where
  "light_damage =
     \<lparr>mtype = ''enemy_damage'',
      mdata = PDict [(KStr ''enemy_id'', PInt 7), (KStr ''damage'', PInt 20)],
      timestamp = 6\<rparr>"

definition chat_message :: message where
  "chat_message = \<lparr>mtype = ''chat'', mdata = PStr ''hello'', timestamp = 7\<rparr>"

definition stray_damage :: message where
  "stray_damage =
     \<lparr>mtype = ''enemy_damage'',
      mdata = PDict [(KStr ''enemy_id'', PInt 99), (KStr ''damage'', PInt 5)],
      timestamp = 8\<rparr>"

definition stray_pickup :: message where
  "stray_pickup =
     \<lparr>mtype = ''pickup_item'', mdata = PDict [(KStr ''item_id'', PInt 3)], timestamp = 9\<rparr>"

definition attack_message :: message where
  "attack_message = \<lparr>mtype = ''attack'', mdata = PStr ''slash'', timestamp = 3\<rparr>"

text \<open>The scenario's host once a third connection, \<open>12\<close>, is registered as session \<open>2\<close>.\<close>

definition joining_host :: GameServer where
  "joining_host =
     scenario_host
       \<lparr>next_player_id := 3,
        clients := [(0, 10), (1, 11), (2, 12)],
        client_addresses :=
          [(0, (''10.0.0.2'', 50000)), (1, (''10.0.0.3'', 50001)), (2, (''10.0.0.4'', 50002))]\<rparr>"

section \<open>Vocabulary of the properties\<close>

text \<open>
  The frame \<^verbatim>\<open>_send_to_client\<close> writes for a message, when the length fits the
  prefix; the frames a send loop writes to a list of sessions (those whose
  connection takes them); and the sessions it reports dead.
\<close>

definition frame :: "env \<Rightarrow> message \<Rightarrow> byte list option" where
  "frame e m =
     (case to_bytes4 (length (dumps e m)) of None \<Rightarrow> None | Some header \<Rightarrow> Some (header @ dumps e m))"

definition written :: "env \<Rightarrow> bool \<Rightarrow> message \<Rightarrow> (int \<times> sock) list \<Rightarrow> event list" where
  "written e held m cs =
     (case frame e m of
        None \<Rightarrow> []
      | Some f \<Rightarrow> map (\<lambda>c. Sent held c f) (filter (\<lambda>c. \<not> send_fails e c) (map snd cs)))"

definition failing :: "env \<Rightarrow> message \<Rightarrow> (int \<times> sock) list \<Rightarrow> int list" where
  "failing e m cs = map fst (filter (\<lambda>(p, c). frame e m = None \<or> send_fails e c) cs)"

text \<open>
  Relations between the registry before and after a call. \<open>shrinks\<close>: no
  identifier was allocated and sessions were only removed. \<open>registered\<close>: below
  capacity, the next identifier was allocated and its session added, and sessions
  were otherwise only removed. \<open>later\<close>: the counter did not go back and every
  live identifier either was live before or is not below the old counter.
  \<open>registry_ok\<close>: the live identifiers are pairwise different and below the
  counter, and there are at most \<^const>\<open>MAX_PLAYERS\<close> of them.
\<close>

definition shrinks :: "GameServer \<Rightarrow> GameServer \<Rightarrow> bool" where
  "shrinks s s' \<longleftrightarrow>
     next_player_id s' = next_player_id s \<and> (\<exists>P. clients s' = filter P (clients s))"

definition registry_ok :: "GameServer \<Rightarrow> bool" where
  "registry_ok s \<longleftrightarrow>
     distinct (map fst (clients s)) \<and> (\<forall>p \<in> live_ids s. p < next_player_id s)
     \<and> length (clients s) \<le> MAX_PLAYERS"

definition later :: "GameServer \<Rightarrow> GameServer \<Rightarrow> bool" where
  "later s s' \<longleftrightarrow>
     next_player_id s \<le> next_player_id s'
     \<and> (\<forall>p \<in> live_ids s'. p \<in> live_ids s \<or> next_player_id s \<le> p)"

definition registered :: "GameServer \<Rightarrow> sock \<Rightarrow> GameServer \<Rightarrow> bool" where
  "registered s c s' \<longleftrightarrow>
     length (clients s) < MAX_PLAYERS
     \<and> next_player_id s' = next_player_id s + 1
     \<and> (\<exists>P. clients s' = filter P (AList.update (next_player_id s) c (clients s)))"

text \<open>
  Observations on the network operations of a call: the connections a frame was
  written to; the connections of the live sessions; that every send was made
  with the lock held; both that and that the frames went to live sessions only.
  \<open>arrivals\<close> are the connections a run accepts.
\<close>

fun receivers :: "event list \<Rightarrow> sock set" where
  "receivers [] = {}"
| "receivers (Sent h c f # evs) = insert c (receivers evs)"
| "receivers (Closed c # evs) = receivers evs"

definition connections :: "GameServer \<Rightarrow> sock set" where
  "connections s = snd ` set (clients s)"

fun under_lock :: "event list \<Rightarrow> bool" where
  "under_lock [] = True"
| "under_lock (Sent h c f # evs) = (h \<and> under_lock evs)"
| "under_lock (Closed c # evs) = under_lock evs"

definition locked_sends :: "GameServer \<Rightarrow> event list \<Rightarrow> bool" where
  "locked_sends s evs \<longleftrightarrow> under_lock evs \<and> receivers evs \<subseteq> connections s"

fun arrivals :: "op list \<Rightarrow> sock set" where
  "arrivals [] = {}"
| "arrivals (Accept c a # xs) = insert c (arrivals xs)"
| "arrivals (x # xs) = arrivals xs"

section \<open>Properties\<close>

subsection \<open>Frames and broadcasts\<close>

lemma send_to_client_frame:
  "send_to_client e held c m =
     (case frame e m of
        None \<Rightarrow> Inl OverflowError
      | Some f \<Rightarrow> if send_fails e c then Inl OSError else Inr (Sent held c f))"
  by (simp add: send_to_client_def frame_def Let_def split: option.splits)

lemma send_each_eq:
  "send_each e held m ex cs =
     (failing e m (filter (\<lambda>(p, c). ex \<noteq> Some p) cs),
      written e held m (filter (\<lambda>(p, c). ex \<noteq> Some p) cs))"
  by (induction cs) (auto simp: send_to_client_frame failing_def written_def split: option.splits)

lemma unlock_relock [simp]: "\<not> lock s \<Longrightarrow> s\<lparr>lock := False\<rparr> = s"
  by (cases s) simp

lemma remove_client_locked: "lock s \<Longrightarrow> remove_client e s p = (Blocked, s, [])"
  by (simp add: remove_client_def)

lemma remove_each_locked:
  "lock s \<Longrightarrow> remove_each e s ps = (if ps = [] then Returned () else Blocked, s, [])"
  by (cases ps) (simp_all add: remove_client_locked)

lemma broadcast_held: "lock s \<Longrightarrow> broadcast e True s m ex = broadcast_locked e s m ex"
  by (simp add: broadcast_def broadcast_locked_def remove_each_locked split: prod.splits)

lemma broadcast_locked_eq:
  "broadcast_locked e s m ex =
     (if failing e m (filter (\<lambda>(p, c). ex \<noteq> Some p) (clients s)) = [] then Returned () else Blocked,
      s, written e True m (filter (\<lambda>(p, c). ex \<noteq> Some p) (clients s)))"
  by (simp add: broadcast_locked_def send_each_eq)

text \<open>What one iteration of the broadcast loop does, in closed form.\<close>

lemma update_tick_eq:
  "update_tick e s =
     (if lock s then (Blocked, s\<lparr>time_calls := Suc (time_calls s)\<rparr>, [])
      else if failing e \<lparr>mtype = ''game_state'', mdata = PDict (game_state s),
                         timestamp = clock e (Suc (time_calls s))\<rparr> (clients s) = []
      then (Returned (), s\<lparr>time_calls := Suc (Suc (Suc (time_calls s)))\<rparr>,
            written e True \<lparr>mtype = ''game_state'', mdata = PDict (game_state s),
                            timestamp = clock e (Suc (time_calls s))\<rparr> (clients s))
      else (Blocked, s\<lparr>lock := True, time_calls := Suc (Suc (time_calls s))\<rparr>,
            written e True \<lparr>mtype = ''game_state'', mdata = PDict (game_state s),
                            timestamp = clock e (Suc (time_calls s))\<rparr> (clients s)))"
  by (simp add: update_tick_def NetworkMessage_def Let_def broadcast_held broadcast_locked_eq
      release_def)

subsection \<open>The registry along a run\<close>

lemma shrinks_refl [simp]: "shrinks s s"
  unfolding shrinks_def by (auto intro: exI [of _ "\<lambda>x. True"])

lemma shrinks_trans: "shrinks s s1 \<Longrightarrow> shrinks s1 s2 \<Longrightarrow> shrinks s s2"
  unfolding shrinks_def by (metis filter_filter)

lemma shrinks_delete:
  "clients s' = AList.delete p (clients s) \<Longrightarrow> next_player_id s' = next_player_id s \<Longrightarrow> shrinks s s'"
  unfolding shrinks_def by (auto simp: AList.delete_eq)

lemma broadcast_locked_state [simp]: "fst (snd (broadcast_locked e s m ex)) = s"
  by (simp add: broadcast_locked_def split: prod.splits)

lemma remove_client_shrinks: "shrinks s (fst (snd (remove_client e s p)))"
proof (cases "lock s \<or> map_of (clients s) p = None")
  case True
  then show ?thesis by (auto simp: remove_client_def)
next
  case False
  then show ?thesis
    by (auto simp: remove_client_def broadcast_locked_eq release_def NetworkMessage_def Let_def
        split: sum.splits prod.splits if_splits intro!: shrinks_delete)
qed

lemma remove_each_shrinks: "shrinks s (fst (snd (remove_each e s ps)))"
proof (induction ps arbitrary: s)
  case Nil
  then show ?case by simp
next
  case (Cons p ps)
  obtain r s1 evs1 where rc: "remove_client e s p = (r, s1, evs1)"
    by (cases "remove_client e s p") auto
  have 1: "shrinks s s1" using remove_client_shrinks [of s e p] rc by simp
  show ?case
  proof (cases r)
    case (Returned u)
    obtain r2 s2 evs2 where re: "remove_each e s1 ps = (r2, s2, evs2)"
      by (cases "remove_each e s1 ps") auto
    have "shrinks s1 s2" using Cons.IH [of s1] re by simp
    with 1 have "shrinks s s2" by (rule shrinks_trans)
    with rc Returned re show ?thesis by simp
  next
    case (Raised x)
    with rc 1 show ?thesis by simp
  next
    case Blocked
    with rc 1 show ?thesis by simp
  qed
qed

lemma broadcast_shrinks: "shrinks s (fst (snd (broadcast e held s m ex)))"
proof -
  obtain dead evs where se: "send_each e held m ex (clients s) = (dead, evs)"
    by (cases "send_each e held m ex (clients s)") auto
  obtain r s1 evs1 where re: "remove_each e s dead = (r, s1, evs1)"
    by (cases "remove_each e s dead") auto
  have "shrinks s s1" using remove_each_shrinks [of s e dead] re by simp
  with se re show ?thesis by (simp add: broadcast_def)
qed

lemma release_registry [simp]:
  "clients (fst (snd (release r))) = clients (fst (snd r))"
  "next_player_id (fst (snd (release r))) = next_player_id (fst (snd r))"
  by (auto simp: release_def split: prod.splits outcome.splits)

lemma broadcast_held_registry [simp]:
  "lock s \<Longrightarrow> clients (fst (snd (broadcast e True s m ex))) = clients s"
  "lock s \<Longrightarrow> next_player_id (fst (snd (broadcast e True s m ex))) = next_player_id s"
  by (simp_all add: broadcast_held)

lemma player_update_registry:
  "clients (fst (snd (player_update_effect s p m))) = clients s
   \<and> next_player_id (fst (snd (player_update_effect s p m))) = next_player_id s"
  by (simp add: player_update_effect_def Let_def split: sum.splits)

lemma attack_registry:
  "lock s \<Longrightarrow> clients (fst (snd (attack_effect e s p m))) = clients s
   \<and> next_player_id (fst (snd (attack_effect e s p m))) = next_player_id s"
  by (simp add: attack_effect_def NetworkMessage_def)

lemma enemy_damage_registry:
  "lock s \<Longrightarrow> clients (fst (snd (enemy_damage_effect e s m))) = clients s
   \<and> next_player_id (fst (snd (enemy_damage_effect e s m))) = next_player_id s"
  by (simp add: enemy_damage_effect_def NetworkMessage_def Let_def
      split: sum.splits option.splits bool.splits pyval.splits)

lemma pickup_item_registry:
  "lock s \<Longrightarrow> clients (fst (snd (pickup_item_effect e s p m))) = clients s
   \<and> next_player_id (fst (snd (pickup_item_effect e s p m))) = next_player_id s"
  by (simp add: pickup_item_effect_def NetworkMessage_def Let_def
      split: sum.splits option.splits bool.splits)

lemma process_message_registry:
  "clients (fst (snd (process_message e s p m))) = clients s
   \<and> next_player_id (fst (snd (process_message e s p m))) = next_player_id s"
  by (simp add: process_message_def player_update_registry attack_registry
      enemy_damage_registry pickup_item_registry Let_def)

lemma update_tick_registry:
  "clients (fst (snd (update_tick e s))) = clients s
   \<and> next_player_id (fst (snd (update_tick e s))) = next_player_id s"
  by (simp add: update_tick_eq)

lemma update_game_state_registry:
  "clients (fst (snd (update_game_state s u))) = clients s
   \<and> next_player_id (fst (snd (update_game_state s u))) = next_player_id s"
  by (simp add: update_game_state_def)

lemma later_refl [simp]: "later s s"
  by (simp add: later_def)

lemma later_trans: "later s s1 \<Longrightarrow> later s1 s2 \<Longrightarrow> later s s2"
  unfolding later_def by (meson order_trans)

lemma shrinks_registry_ok: "shrinks s s' \<Longrightarrow> registry_ok s \<Longrightarrow> registry_ok s'"
  unfolding shrinks_def registry_ok_def live_ids_def
  by (auto simp: distinct_map_filter intro: le_trans [OF length_filter_le])

lemma shrinks_later: "shrinks s s' \<Longrightarrow> later s s'"
  unfolding shrinks_def later_def live_ids_def by auto

lemma accept_welcome_registry:
  "clients (fst (snd (accept_welcome e s p c))) = clients s
   \<and> next_player_id (fst (snd (accept_welcome e s p c))) = next_player_id s"
  by (simp add: accept_welcome_def NetworkMessage_def split: sum.splits)

lemma accept_announce_shrinks: "shrinks s (fst (snd (accept_announce e s p)))"
proof -
  have "shrinks (s\<lparr>time_calls := Suc (time_calls s)\<rparr>) (fst (snd (accept_announce e s p)))"
    using broadcast_shrinks [of "s\<lparr>time_calls := Suc (time_calls s)\<rparr>" e False]
    by (simp add: accept_announce_def NetworkMessage_def)
  then show ?thesis by (simp add: shrinks_def)
qed

lemma accept_connection_full:
  "MAX_PLAYERS \<le> length (clients s) \<Longrightarrow>
   accept_connection e s conn = (Returned Rejected, s, [Closed (fst conn)])"
  by (simp add: accept_connection_def accept_register_def)

lemma accept_connection_blocked:
  "length (clients s) < MAX_PLAYERS \<Longrightarrow> lock s \<Longrightarrow>
   accept_connection e s conn = (Blocked, s\<lparr>next_player_id := next_player_id s + 1\<rparr>, [])"
  by (simp add: accept_connection_def accept_register_def Let_def)

lemma accept_connection_registers:
  assumes cap: "length (clients s) < MAX_PLAYERS" and free: "\<not> lock s"
  shows "registered s (fst conn) (fst (snd (accept_connection e s conn)))"
proof -
  define p where "p = next_player_id s"
  define s1 where "s1 = s\<lparr>next_player_id := p + 1,
      clients := AList.update p (fst conn) (clients s),
      client_addresses := AList.update p (snd conn) (client_addresses s)\<rparr>"
  have reg: "accept_register s conn = (Returned (Admitted p), s1, [])"
    using cap free by (simp add: accept_register_def Let_def s1_def p_def)
  obtain r2 s2 evs2 where w: "accept_welcome e s1 p (fst conn) = (r2, s2, evs2)"
    by (cases "accept_welcome e s1 p (fst conn)") auto
  have s2: "clients s2 = clients s1" "next_player_id s2 = next_player_id s1"
    using accept_welcome_registry [of e s1 p "fst conn"] w by simp_all
  have r1: "registered s (fst conn) s1"
    using cap by (auto simp: registered_def s1_def p_def intro: exI [of _ "\<lambda>x. True"])
  have r2: "registered s (fst conn) s2"
    using r1 s2 by (simp add: registered_def)
  obtain r3 s3 evs3 where a: "accept_announce e s2 p = (r3, s3, evs3)"
    by (cases "accept_announce e s2 p") auto
  have "shrinks s2 s3" using accept_announce_shrinks [of s2 e p] a by simp
  then have r3: "registered s (fst conn) s3"
    using r2 unfolding registered_def shrinks_def by (metis filter_filter)
  have "fst (snd (accept_connection e s conn)) = s2 \<or> fst (snd (accept_connection e s conn)) = s3"
    using reg w a by (cases r2; cases r3) (simp_all add: accept_connection_def)
  with r2 r3 show ?thesis by auto
qed

lemma update_fresh: "k \<notin> fst ` set al \<Longrightarrow> AList.update k v al = al @ [(k, v)]"
  by (induction al) auto

lemma registered_later:
  assumes "registered s c s'"
  shows "later s s'"
proof -
  from assms obtain P where P: "clients s' = filter P (AList.update (next_player_id s) c (clients s))"
    and n: "next_player_id s' = next_player_id s + 1"
    unfolding registered_def by auto
  have "fst ` set (clients s') \<subseteq> fst ` set (AList.update (next_player_id s) c (clients s))"
    unfolding P by auto
  then have "live_ids s' \<subseteq> {next_player_id s} \<union> live_ids s"
    by (simp add: live_ids_def dom_update)
  with n show ?thesis by (auto simp: later_def)
qed

lemma registered_ok: "registered s c s' \<Longrightarrow> registry_ok s \<Longrightarrow> registry_ok s'"
proof -
  assume r: "registered s c s'" and ok: "registry_ok s"
  from ok have fresh: "next_player_id s \<notin> fst ` set (clients s)"
    by (auto simp: registry_ok_def live_ids_def)
  from r obtain P where P: "clients s' = filter P (clients s @ [(next_player_id s, c)])"
    and n: "next_player_id s' = next_player_id s + 1" and len: "length (clients s) < MAX_PLAYERS"
    unfolding registered_def using update_fresh [OF fresh] by auto
  have d: "distinct (map fst (clients s @ [(next_player_id s, c)]))"
    using ok fresh by (auto simp: registry_ok_def)
  have "distinct (map fst (clients s'))"
    unfolding P using d by (rule distinct_map_filter)
  moreover have "\<forall>p \<in> live_ids s'. p < next_player_id s'"
    using ok n unfolding P registry_ok_def live_ids_def by auto
  moreover have "length (clients s') \<le> MAX_PLAYERS"
  proof -
    have "length (clients s') \<le> length (clients s @ [(next_player_id s, c)])"
      unfolding P by (rule length_filter_le)
    with len show ?thesis by simp
  qed
  ultimately show ?thesis by (simp add: registry_ok_def)
qed

lemma accept_later: "later s (fst (snd (accept_connection e s conn)))"
proof (cases "MAX_PLAYERS \<le> length (clients s)")
  case True
  then show ?thesis by (simp add: accept_connection_full)
next
  case False
  show ?thesis
  proof (cases "lock s")
    case True
    with False show ?thesis
      by (simp add: accept_connection_blocked later_def live_ids_def)
  next
    case free: False
    with False have "registered s (fst conn) (fst (snd (accept_connection e s conn)))"
      using accept_connection_registers [of s conn e] by simp
    then show ?thesis by (rule registered_later)
  qed
qed

lemma accept_registry_ok:
  assumes "registry_ok s"
  shows "registry_ok (fst (snd (accept_connection e s conn)))"
proof (cases "MAX_PLAYERS \<le> length (clients s)")
  case True
  with assms show ?thesis by (simp add: accept_connection_full)
next
  case False
  show ?thesis
  proof (cases "lock s")
    case True
    with False assms show ?thesis
      by (auto simp: accept_connection_blocked registry_ok_def live_ids_def)
  next
    case free: False
    with False assms show ?thesis
      using accept_connection_registers [of s conn e] by (auto intro: registered_ok)
  qed
qed

lemma step_later: "later s (fst (step e s x))"
proof (cases x)
  case (Accept c a)
  then show ?thesis using accept_later [of s e "(c, a)"] by simp
next
  case (Remove i)
  then show ?thesis using remove_client_shrinks [of s e i] by (simp add: shrinks_later)
next
  case (Process i m)
  then show ?thesis
    using process_message_registry [of e s i m] by (simp add: later_def live_ids_def)
next
  case Tick
  then show ?thesis using update_tick_registry [of e s] by (simp add: later_def live_ids_def)
next
  case (Update u)
  then show ?thesis
    using update_game_state_registry [of s u] by (simp add: later_def live_ids_def)
qed

lemma step_registry_ok: "registry_ok s \<Longrightarrow> registry_ok (fst (step e s x))"
proof (cases x)
  case (Accept c a)
  assume "registry_ok s"
  then show ?thesis using accept_registry_ok [of s e "(c, a)"] Accept by simp
next
  case (Remove i)
  assume "registry_ok s"
  then show ?thesis using remove_client_shrinks [of s e i] Remove
    by (auto intro: shrinks_registry_ok)
next
  case (Process i m)
  assume "registry_ok s"
  then show ?thesis
    using process_message_registry [of e s i m] Process by (simp add: registry_ok_def live_ids_def)
next
  case Tick
  assume "registry_ok s"
  then show ?thesis using update_tick_registry [of e s] Tick
    by (simp add: registry_ok_def live_ids_def)
next
  case (Update u)
  assume "registry_ok s"
  then show ?thesis
    using update_game_state_registry [of s u] Update by (simp add: registry_ok_def live_ids_def)
qed

lemma run_later: "later s (run e s xs)"
  by (induction xs arbitrary: s) (auto intro: later_trans step_later)

lemma run_registry_ok: "registry_ok s \<Longrightarrow> registry_ok (run e s xs)"
  by (induction xs arbitrary: s) (auto intro: step_registry_ok)

lemma run_append: "run e s (xs @ ys) = run e (run e s xs) ys"
  by (induction xs arbitrary: s) auto

lemma init_registry_ok: "registry_ok init_server"
  by (simp add: registry_ok_def init_server_def live_ids_def)

lemma admitted_register:
  "admitted (fst (accept_register s conn)) = [] \<or>
   (admitted (fst (accept_register s conn)) = [next_player_id s]
    \<and> next_player_id (fst (snd (accept_connection e s conn))) = next_player_id s + 1)"
proof (cases "length (clients s) \<ge> MAX_PLAYERS \<or> lock s")
  case True
  then show ?thesis by (auto simp: accept_register_def Let_def)
next
  case False
  then have "registered s (fst conn) (fst (snd (accept_connection e s conn)))"
    using accept_connection_registers [of s conn e] by simp
  with False show ?thesis by (auto simp: accept_register_def Let_def registered_def)
qed

lemma assigned_ids_bounds:
  "(\<forall>i \<in> set (assigned_ids e s xs). next_player_id s \<le> i) \<and> sorted_wrt (<) (assigned_ids e s xs)"
proof (induction xs arbitrary: s)
  case Nil
  then show ?case by simp
next
  case (Cons x xs)
  let ?s' = "fst (step e s x)"
  have mono: "next_player_id s \<le> next_player_id ?s'"
    using step_later [of s e x] by (simp add: later_def)
  have IH: "\<forall>i \<in> set (assigned_ids e ?s' xs). next_player_id ?s' \<le> i"
    "sorted_wrt (<) (assigned_ids e ?s' xs)"
    using Cons.IH [of ?s'] by simp_all
  show ?case
  proof (cases x)
    case (Accept c a)
    from admitted_register [of s "(c, a)" e] show ?thesis
    proof
      assume "admitted (fst (accept_register s (c, a))) = []"
      with Accept IH mono show ?thesis by (auto simp: sorted_wrt_append)
    next
      assume ad: "admitted (fst (accept_register s (c, a))) = [next_player_id s] \<and>
        next_player_id (fst (snd (accept_connection e s (c, a)))) = next_player_id s + 1"
      then have "next_player_id ?s' = next_player_id s + 1" using Accept by simp
      with IH have "\<forall>i \<in> set (assigned_ids e ?s' xs). next_player_id s < i" by auto
      with ad Accept IH show ?thesis by (auto simp: sorted_wrt_append)
    qed
  next
    case (Remove i)
    with IH mono show ?thesis by auto
  next
    case (Process i m)
    with IH mono show ?thesis by auto
  next
    case Tick
    with IH mono show ?thesis by auto
  next
    case (Update u)
    with IH mono show ?thesis by auto
  qed
qed

subsection \<open>Tables of the snapshot\<close>

lemma table_del_update:
  "table_del (AList.update (KStr name) (PDict d) gs) name k =
     AList.update (KStr name) (PDict (AList.delete k d)) gs"
  by (simp add: table_del_def update_conv')

lemma table_set_eq:
  "map_of gs (KStr name) = Some (PDict d) \<Longrightarrow>
   table_set gs name k v = AList.update (KStr name) (PDict (AList.update k v d)) gs"
  by (simp add: table_set_def)

subsection \<open>What is sent, to whom, and under the lock\<close>

lemma receivers_append [simp]: "receivers (evs @ evs') = receivers evs \<union> receivers evs'"
  by (induction evs rule: receivers.induct) auto

lemma under_lock_append [simp]: "under_lock (evs @ evs') = (under_lock evs \<and> under_lock evs')"
  by (induction evs rule: under_lock.induct) auto

lemma receivers_sent: "receivers (map (\<lambda>c. Sent h c f) cs) = set cs"
  by (induction cs) auto

lemma under_lock_sent: "under_lock (map (\<lambda>c. Sent True c f) cs)"
  by (induction cs) auto

lemma receivers_written: "receivers (written e h m cs) \<subseteq> snd ` set cs"
  by (auto simp: written_def receivers_sent split: option.splits)

lemma under_lock_written: "under_lock (written e True m cs)"
  by (simp add: written_def under_lock_sent split: option.splits)

lemma locked_sends_written:
  "set cs \<subseteq> set (clients s) \<Longrightarrow> locked_sends s (written e True m cs)"
  using receivers_written [of e True m cs]
  by (fastforce simp: locked_sends_def under_lock_written connections_def)

lemma locked_sends_simps [simp]:
  "locked_sends s []"
  "locked_sends s (Closed c # evs) = locked_sends s evs"
  "locked_sends s (evs @ evs') = (locked_sends s evs \<and> locked_sends s evs')"
  by (auto simp: locked_sends_def)

lemma broadcast_locked_events:
  "snd (snd (broadcast_locked e s m ex)) = written e True m (filter (\<lambda>(p, c). ex \<noteq> Some p) (clients s))"
  by (simp add: broadcast_locked_eq)

lemma broadcast_held_sends:
  assumes "lock s" and "clients s = clients s0"
  shows "locked_sends s0 (snd (snd (broadcast e True s m ex)))"
proof -
  have "locked_sends s (written e True m (filter (\<lambda>(p, c). ex \<noteq> Some p) (clients s)))"
    by (rule locked_sends_written) auto
  then show ?thesis
    using assms by (simp add: broadcast_held broadcast_locked_events locked_sends_def connections_def)
qed

lemma shrinks_connections: "shrinks s s' \<Longrightarrow> connections s' \<subseteq> connections s"
  by (auto simp: shrinks_def connections_def)

lemma locked_sends_mono: "locked_sends s' evs \<Longrightarrow> connections s' \<subseteq> connections s \<Longrightarrow> locked_sends s evs"
  by (auto simp: locked_sends_def)

lemma remove_client_sends: "locked_sends s (snd (snd (remove_client e s p)))"
proof (cases "lock s \<or> map_of (clients s) p = None")
  case True
  then show ?thesis by (auto simp: remove_client_def)
next
  case False
  then obtain c where c: "map_of (clients s) p = Some c" and free: "\<not> lock s" by auto
  have sub: "set (filter (\<lambda>(p, c). None \<noteq> Some p) (AList.delete p (clients s))) \<subseteq> set (clients s)"
    by (auto simp: AList.delete_eq)
  have "locked_sends s (written e True m (filter (\<lambda>(p, c). None \<noteq> Some p) (AList.delete p (clients s))))" for m
    using sub by (rule locked_sends_written)
  then show ?thesis
    using c free
    by (auto simp: remove_client_def broadcast_locked_eq release_def NetworkMessage_def Let_def
        split: sum.splits)
qed

lemma remove_each_sends: "locked_sends s (snd (snd (remove_each e s ps)))"
proof (induction ps arbitrary: s)
  case Nil
  then show ?case by simp
next
  case (Cons p ps)
  obtain r s1 evs1 where rc: "remove_client e s p = (r, s1, evs1)"
    by (cases "remove_client e s p") auto
  have 1: "locked_sends s evs1" using remove_client_sends [of s e p] rc by simp
  have sh: "shrinks s s1" using remove_client_shrinks [of s e p] rc by simp
  show ?case
  proof (cases r)
    case (Returned u)
    obtain r2 s2 evs2 where re: "remove_each e s1 ps = (r2, s2, evs2)"
      by (cases "remove_each e s1 ps") auto
    have "locked_sends s1 evs2" using Cons.IH [of s1] re by simp
    then have "locked_sends s evs2"
      using shrinks_connections [OF sh] by (rule locked_sends_mono)
    with 1 rc Returned re show ?thesis by simp
  next
    case (Raised x)
    with rc 1 show ?thesis by simp
  next
    case Blocked
    with rc 1 show ?thesis by simp
  qed
qed

lemma broadcast_sends:
  "\<exists>cleanup. snd (snd (broadcast e held s m ex))
      = written e held m (filter (\<lambda>(p, c). ex \<noteq> Some p) (clients s)) @ cleanup
    \<and> locked_sends s cleanup"
proof -
  obtain r s1 evs1 where re:
    "remove_each e s (failing e m (filter (\<lambda>(p, c). ex \<noteq> Some p) (clients s))) = (r, s1, evs1)"
    by (cases "remove_each e s (failing e m (filter (\<lambda>(p, c). ex \<noteq> Some p) (clients s)))") auto
  have "locked_sends s evs1"
    using remove_each_sends [of s e "failing e m (filter (\<lambda>(p, c). ex \<noteq> Some p) (clients s))"] re
    by simp
  with re show ?thesis by (simp add: broadcast_def send_each_eq)
qed

lemma attack_sends: "lock s \<Longrightarrow> locked_sends s (snd (snd (attack_effect e s p m)))"
  by (auto simp: attack_effect_def NetworkMessage_def intro!: broadcast_held_sends)

lemma player_update_sends: "snd (snd (player_update_effect s p m)) = []"
  by (simp add: player_update_effect_def Let_def split: sum.splits)

lemma enemy_damage_sends: "lock s \<Longrightarrow> locked_sends s (snd (snd (enemy_damage_effect e s m)))"
  by (auto simp: enemy_damage_effect_def NetworkMessage_def Let_def
      split: sum.splits option.splits bool.splits pyval.splits intro!: broadcast_held_sends)

lemma pickup_item_sends: "lock s \<Longrightarrow> locked_sends s (snd (snd (pickup_item_effect e s p m)))"
  by (auto simp: pickup_item_effect_def NetworkMessage_def Let_def
      split: sum.splits option.splits bool.splits intro!: broadcast_held_sends)

lemma release_events [simp]: "snd (snd (release r)) = snd (snd r)"
  by (auto simp: release_def split: prod.splits outcome.splits)

lemma process_message_sends: "locked_sends s (snd (snd (process_message e s p m)))"
  using attack_sends [of "s\<lparr>lock := True\<rparr>" e p m]
    enemy_damage_sends [of "s\<lparr>lock := True\<rparr>" e m]
    pickup_item_sends [of "s\<lparr>lock := True\<rparr>" e p m]
  by (simp add: process_message_def player_update_sends Let_def locked_sends_def connections_def)

lemma update_tick_sends: "locked_sends s (snd (snd (update_tick e s)))"
  by (simp add: update_tick_eq locked_sends_written)

lemma set_update_subset: "set (AList.update k v al) \<subseteq> insert (k, v) (set al)"
  by (induction al) auto

lemma registered_connections: "registered s c s' \<Longrightarrow> connections s' \<subseteq> insert c (connections s)"
proof -
  assume "registered s c s'"
  then obtain P where "clients s' = filter P (AList.update (next_player_id s) c (clients s))"
    by (auto simp: registered_def)
  then have "set (clients s') \<subseteq> insert (next_player_id s, c) (set (clients s))"
    using set_update_subset [of "next_player_id s" c "clients s"] by auto
  then show ?thesis by (fastforce simp: connections_def)
qed

lemma broadcast_receivers:
  "receivers (snd (snd (broadcast e held s m ex))) \<subseteq> connections s"
proof -
  obtain cleanup where
    "snd (snd (broadcast e held s m ex))
      = written e held m (filter (\<lambda>(p, c). ex \<noteq> Some p) (clients s)) @ cleanup"
    and "locked_sends s cleanup"
    using broadcast_sends [of e held s m ex] by blast
  then show ?thesis
    using receivers_written [of e held m "filter (\<lambda>(p, c). ex \<noteq> Some p) (clients s)"]
    by (fastforce simp: locked_sends_def connections_def)
qed

lemma accept_announce_receivers:
  "receivers (snd (snd (accept_announce e s p))) \<subseteq> connections s"
  using broadcast_receivers [of e False "s\<lparr>time_calls := Suc (time_calls s)\<rparr>"]
  by (simp add: accept_announce_def NetworkMessage_def connections_def)

lemma accept_connections:
  "connections (fst (snd (accept_connection e s conn))) \<subseteq> insert (fst conn) (connections s)"
proof (cases "MAX_PLAYERS \<le> length (clients s)")
  case True
  then show ?thesis by (auto simp: accept_connection_full)
next
  case False
  show ?thesis
  proof (cases "lock s")
    case True
    with False show ?thesis by (auto simp: accept_connection_blocked connections_def)
  next
    case free: False
    with False have "registered s (fst conn) (fst (snd (accept_connection e s conn)))"
      using accept_connection_registers [of s conn e] by simp
    then show ?thesis by (rule registered_connections)
  qed
qed

lemma accept_receivers:
  "receivers (snd (snd (accept_connection e s conn))) \<subseteq> insert (fst conn) (connections s)"
proof (cases "MAX_PLAYERS \<le> length (clients s)")
  case True
  then show ?thesis by (auto simp: accept_connection_full)
next
  case False
  show ?thesis
  proof (cases "lock s")
    case True
    with False show ?thesis by (auto simp: accept_connection_blocked)
  next
    case free: False
    define p where "p = next_player_id s"
    define s1 where "s1 = s\<lparr>next_player_id := p + 1,
        clients := AList.update p (fst conn) (clients s),
        client_addresses := AList.update p (snd conn) (client_addresses s)\<rparr>"
    have reg: "accept_register s conn = (Returned (Admitted p), s1, [])"
      using False free by (simp add: accept_register_def Let_def s1_def p_def)
    have c1: "connections s1 \<subseteq> insert (fst conn) (connections s)"
      using set_update_subset [of p "fst conn" "clients s"]
      by (fastforce simp: s1_def connections_def)
    obtain r2 s2 evs2 where w: "accept_welcome e s1 p (fst conn) = (r2, s2, evs2)"
      by (cases "accept_welcome e s1 p (fst conn)") auto
    have s2: "clients s2 = clients s1"
      using accept_welcome_registry [of e s1 p "fst conn"] w by simp
    have e2: "receivers evs2 \<subseteq> {fst conn}"
      using w by (auto simp: accept_welcome_def NetworkMessage_def send_to_client_frame
          split: option.splits if_splits)
    obtain r3 s3 evs3 where a: "accept_announce e s2 p = (r3, s3, evs3)"
      by (cases "accept_announce e s2 p") auto
    have "receivers evs3 \<subseteq> connections s2"
      using accept_announce_receivers [of e s2 p] a by simp
    then have e3: "receivers evs3 \<subseteq> insert (fst conn) (connections s)"
      using c1 s2 by (auto simp: connections_def)
    have "snd (snd (accept_connection e s conn)) = evs2 \<or> snd (snd (accept_connection e s conn)) = evs2 @ evs3"
      using reg w a by (cases r2; cases r3) (simp_all add: accept_connection_def)
    with e2 e3 show ?thesis by auto
  qed
qed

lemma step_connections:
  "connections (fst (step e s x)) \<subseteq> connections s \<union> arrivals [x]"
proof (cases x)
  case (Accept c a)
  then show ?thesis using accept_connections [of e s "(c, a)"] by auto
next
  case (Remove i)
  then show ?thesis using shrinks_connections [OF remove_client_shrinks [of s e i]] by auto
next
  case (Process i m)
  then show ?thesis using process_message_registry [of e s i m] by (simp add: connections_def)
next
  case Tick
  then show ?thesis using update_tick_registry [of e s] by (simp add: connections_def)
next
  case (Update u)
  then show ?thesis using update_game_state_registry [of s u] by (simp add: connections_def)
qed

lemma step_receivers:
  "receivers (snd (step e s x)) \<subseteq> connections s \<union> arrivals [x]"
proof (cases x)
  case (Accept c a)
  then show ?thesis using accept_receivers [of e s "(c, a)"] by auto
next
  case (Remove i)
  then show ?thesis using remove_client_sends [of s e i] by (auto simp: locked_sends_def)
next
  case (Process i m)
  then show ?thesis using process_message_sends [of s e i m] by (auto simp: locked_sends_def)
next
  case Tick
  then show ?thesis using update_tick_sends [of s e] by (auto simp: locked_sends_def)
next
  case (Update u)
  then show ?thesis by (simp add: update_game_state_def)
qed

lemma arrivals_Cons: "arrivals (x # xs) = arrivals [x] \<union> arrivals xs"
  by (cases x) auto

lemma trace_receivers: "receivers (trace e s xs) \<subseteq> connections s \<union> arrivals xs"
proof (induction xs arbitrary: s)
  case Nil
  then show ?case by simp
next
  case (Cons x xs)
  have "receivers (trace e (fst (step e s x)) xs) \<subseteq> connections (fst (step e s x)) \<union> arrivals xs"
    by (rule Cons.IH)
  with step_connections [of e s x] step_receivers [of e s x] show ?case
    by (subst arrivals_Cons) auto
qed

subsection \<open>Frames on the wire\<close>













subsection \<open>Removal, and the examples\<close>

lemma map_of_dict_update:
  "distinct (map fst u) \<Longrightarrow> map_of (dict_update d u) = map_of d ++ map_of u"
  unfolding dict_update_def
proof (induction u arbitrary: d)
  case Nil
  then show ?case by simp
next
  case (Cons a u)
  obtain k v where a: "a = (k, v)" by (cases a)
  from Cons.prems a have k: "k \<notin> dom (map_of u)" and d: "distinct (map fst u)"
    by (auto simp: dom_map_of_conv_image_fst)
  have "map_of (fold (\<lambda>(k, v). AList.update k v) (a # u) d)
        = map_of (AList.update k v d) ++ map_of u"
    using Cons.IH [OF d, of "AList.update k v d"] a by simp
  also have "\<dots> = (map_of d)(k \<mapsto> v) ++ map_of u"
    by (simp only: update_conv')
  also have "\<dots> = (map_of d ++ map_of u)(k \<mapsto> v)"
    using k by (rule map_add_upd_left)
  also have "\<dots> = map_of d ++ map_of (a # u)"
    using a by (simp only: map_of.simps fst_conv snd_conv map_add_upd)
  finally show ?case .
qed

lemma demo_env_simps:
  "send_fails demo_env c = False" "clock demo_env n = int n"
  by (simp_all add: demo_env_def)


lemma frame_demo: "frame demo_env m = Some [0, 0, 0, 1, of_nat (length (mtype m))]"
  by (simp add: frame_def demo_env_def to_bytes4_def)

lemmas eval_defs = accept_connection_def accept_register_def accept_welcome_def accept_announce_def
  broadcast_def remove_client_def broadcast_locked_def send_each_eq send_to_client_frame
  written_def failing_def frame_demo demo_env_simps NetworkMessage_def release_def
  MAX_PLAYERS_def init_server_def live_ids_def dict_get_def table_del_def Let_def

lemma remove_client_absent:
  assumes "p \<notin> live_ids s"
  shows "remove_client e s p = (if lock s then Blocked else Returned (), s, [])"
proof -
  from assms have "map_of (clients s) p = None"
    by (simp add: live_ids_def map_of_eq_None_iff)
  then show ?thesis by (simp add: remove_client_def)
qed

lemma remove_client_after:
  "lock (fst (snd (remove_client e s p))) \<or> p \<notin> live_ids (fst (snd (remove_client e s p)))"
proof (cases "lock s")
  case True
  then show ?thesis by (simp add: remove_client_def)
next
  case free: False
  show ?thesis
  proof (cases "map_of (clients s) p")
    case None
    then have "p \<notin> live_ids s" by (simp add: live_ids_def map_of_eq_None_iff)
    with None free show ?thesis by (simp add: remove_client_def)
  next
    case (Some c)
    have "shrinks (s\<lparr>clients := AList.delete p (clients s)\<rparr>) (fst (snd (remove_client e s p)))"
      using Some free
      by (auto simp: remove_client_def broadcast_locked_eq release_def NetworkMessage_def Let_def
          shrinks_def split: sum.splits intro: exI [of _ "\<lambda>x. True"])
    then have "live_ids (fst (snd (remove_client e s p))) \<subseteq> fst ` set (AList.delete p (clients s))"
      by (auto simp: shrinks_def live_ids_def)
    then show ?thesis using delete_notin_dom [of p "clients s"] by auto
  qed
qed

section \<open>The claims\<close>

subsection \<open>Damage to an enemy\<close>

text \<open>
  C1. An \<^verbatim>\<open>enemy_damage\<close> message that carries an enemy id present in the
  snapshot's enemies and an integer damage, for an enemy with an integer
  \<open>hp\<close>, routed with the lock free: the router stores \<open>hp - damage\<close>. When the
  difference is at most \<open>0\<close> the enemy's entry is deleted and the frame of
  \<^verbatim>\<open>enemy_died\<close>, with the enemy id and the message's \<open>drops\<close> (the empty list
  when it has none), is written to every session whose connection takes it;
  otherwise the entry stays with the reduced \<open>hp\<close> and the frame of
  \<^verbatim>\<open>enemy_damaged\<close> with the enemy id and the new \<open>hp\<close> is written to them. No
  other entry of the snapshot and no session changes. The call returns when no
  send failed; after a failed send the thread waits on the lock it holds.
\<close>

theorem enemy_damage_routed:
  assumes "\<not> lock s"
    and "mtype m = ''enemy_damage''"
    and "mdata m = PDict d"
    and "map_of d (KStr ''enemy_id'') = Some enemy_id"
    and "py_key enemy_id = Some k"
    and "map_of d (KStr ''damage'') = Some (PInt damage)"
    and "map_of (game_state s) (KStr ''enemies'') = Some (PDict enemies)"
    and "map_of enemies k = Some (PDict enemy)"
    and "map_of enemy (KStr ''hp'') = Some (PInt hp)"
  shows "case process_message e s player_id m of (r, s', evs) \<Rightarrow>
     clients s' = clients s \<and>
     (if hp - damage \<le> 0 then
        game_state s' = AList.update (KStr ''enemies'') (PDict (AList.delete k enemies)) (game_state s)
        \<and> evs = written e True
                  \<lparr>mtype = ''enemy_died'',
                   mdata = PDict [(KStr ''enemy_id'', enemy_id),
                                  (KStr ''drops'', dict_get d (KStr ''drops'') (PList []))],
                   timestamp = clock e (time_calls s)\<rparr>
                  (clients s)
        \<and> r = (if failing e
                     \<lparr>mtype = ''enemy_died'',
                      mdata = PDict [(KStr ''enemy_id'', enemy_id),
                                     (KStr ''drops'', dict_get d (KStr ''drops'') (PList []))],
                      timestamp = clock e (time_calls s)\<rparr>
                     (clients s) = []
                then Returned () else Blocked)
      else
        game_state s' =
          AList.update (KStr ''enemies'')
            (PDict (AList.update k (PDict (AList.update (KStr ''hp'') (PInt (hp - damage)) enemy))
                      enemies))
            (game_state s)
        \<and> evs = written e True
                  \<lparr>mtype = ''enemy_damaged'',
                   mdata = PDict [(KStr ''enemy_id'', enemy_id), (KStr ''hp'', PInt (hp - damage))],
                   timestamp = clock e (time_calls s)\<rparr>
                  (clients s)
        \<and> r = (if failing e
                     \<lparr>mtype = ''enemy_damaged'',
                      mdata = PDict [(KStr ''enemy_id'', enemy_id),
                                     (KStr ''hp'', PInt (hp - damage))],
                      timestamp = clock e (time_calls s)\<rparr>
                     (clients s) = []
                then Returned () else Blocked))"
  using assms
  by (simp add: process_message_def enemy_damage_effect_def dict_get_def broadcast_held
      broadcast_locked_eq NetworkMessage_def release_def table_del_update table_set_eq
      delete_update_same Let_def)

text \<open>
  The two scenarios of the specification: enemy \<open>7\<close> with \<open>hp = 60\<close> takes \<open>60\<close>
  and is gone, \<^verbatim>\<open>enemy_died\<close> going to both sessions; it takes \<open>20\<close> and stays
  with \<open>hp = 40\<close>, \<^verbatim>\<open>enemy_damaged\<close> going to both sessions.
\<close>

theorem enemy_damage_routed_witness:
  "\<not> lock scenario_host
   \<and> mtype lethal_damage = ''enemy_damage'' \<and> mtype light_damage = ''enemy_damage''
   \<and> py_key (PInt 7) = Some (KInt 7)
   \<and> map_of (game_state scenario_host) (KStr ''enemies'')
       = Some (PDict [(KInt 7, PDict [(KStr ''hp'', PInt 60)])])
   \<and> (case process_message demo_env scenario_host 0 lethal_damage of (r, s', evs) \<Rightarrow>
        r = Returned ()
        \<and> game_state s' =
            [(KStr ''players'', PDict []), (KStr ''enemies'', PDict []),
             (KStr ''items'', PDict [])]
        \<and> evs = [Sent True 10 [0, 0, 0, 1, 10], Sent True 11 [0, 0, 0, 1, 10]])
   \<and> (case process_message demo_env scenario_host 0 light_damage of (r, s', evs) \<Rightarrow>
        r = Returned ()
        \<and> game_state s' =
            [(KStr ''players'', PDict []),
             (KStr ''enemies'', PDict [(KInt 7, PDict [(KStr ''hp'', PInt 40)])]),
             (KStr ''items'', PDict [])]
        \<and> evs = [Sent True 10 [0, 0, 0, 1, 13], Sent True 11 [0, 0, 0, 1, 13]])"
proof -
  have free: "\<not> lock scenario_host" by (simp add: scenario_host_def)
  have key: "py_key (PInt 7) = Some (KInt 7)" by simp
  have table: "map_of (game_state scenario_host) (KStr ''enemies'')
       = Some (PDict [(KInt 7, PDict [(KStr ''hp'', PInt 60)])])"
    by (simp add: scenario_host_def)
  have enemy: "map_of [(KInt 7, PDict [(KStr ''hp'', PInt 60)])] (KInt 7)
       = Some (PDict [(KStr ''hp'', PInt 60)])" by simp
  have hp: "map_of [(KStr ''hp'', PInt 60)] (KStr ''hp'') = Some (PInt 60)" by simp
  have t1: "mtype lethal_damage = ''enemy_damage''"
    and d1: "mdata lethal_damage = PDict [(KStr ''enemy_id'', PInt 7), (KStr ''damage'', PInt 60),
                     (KStr ''drops'', PList [PStr ''sword''])]"
    by (simp_all add: lethal_damage_def)
  have i1: "map_of [(KStr ''enemy_id'', PInt 7), (KStr ''damage'', PInt 60),
                     (KStr ''drops'', PList [PStr ''sword''])] (KStr ''enemy_id'') = Some (PInt 7)"
    and g1: "map_of [(KStr ''enemy_id'', PInt 7), (KStr ''damage'', PInt 60),
                     (KStr ''drops'', PList [PStr ''sword''])] (KStr ''damage'') = Some (PInt 60)"
    by simp_all
  have t2: "mtype light_damage = ''enemy_damage''"
    and d2: "mdata light_damage = PDict [(KStr ''enemy_id'', PInt 7), (KStr ''damage'', PInt 20)]"
    by (simp_all add: light_damage_def)
  have i2: "map_of [(KStr ''enemy_id'', PInt 7), (KStr ''damage'', PInt 20)] (KStr ''enemy_id'')
       = Some (PInt 7)"
    and g2: "map_of [(KStr ''enemy_id'', PInt 7), (KStr ''damage'', PInt 20)] (KStr ''damage'')
       = Some (PInt 20)"
    by simp_all
  note lethal = enemy_damage_routed [OF free t1 d1 i1 key g1 table enemy hp, of demo_env 0]
  note light = enemy_damage_routed [OF free t2 d2 i2 key g2 table enemy hp, of demo_env 0]
  have a: "case process_message demo_env scenario_host 0 lethal_damage of (r, s', evs) \<Rightarrow>
        r = Returned ()
        \<and> game_state s' =
            [(KStr ''players'', PDict []), (KStr ''enemies'', PDict []),
             (KStr ''items'', PDict [])]
        \<and> evs = [Sent True 10 [0, 0, 0, 1, 10], Sent True 11 [0, 0, 0, 1, 10]]"
    using lethal
    by (simp add: scenario_host_def written_def failing_def frame_demo demo_env_simps dict_get_def
        split: prod.splits)
  have b: "case process_message demo_env scenario_host 0 light_damage of (r, s', evs) \<Rightarrow>
        r = Returned ()
        \<and> game_state s' =
            [(KStr ''players'', PDict []),
             (KStr ''enemies'', PDict [(KInt 7, PDict [(KStr ''hp'', PInt 40)])]),
             (KStr ''items'', PDict [])]
        \<and> evs = [Sent True 10 [0, 0, 0, 1, 13], Sent True 11 [0, 0, 0, 1, 13]]"
    using light
    by (simp add: scenario_host_def written_def failing_def frame_demo demo_env_simps dict_get_def
        split: prod.splits)
  from free t1 t2 key table a b show ?thesis by simp
qed

subsection \<open>The codec\<close>



subsection \<open>A frame that cannot be decoded\<close>




subsection \<open>Player identifiers\<close>

text \<open>
  C4. Along every run of a host from its construction (accepts and removals, and
  routed messages, ticks and updates between them): the identifiers under which
  sessions are registered are strictly increasing in the order of registration;
  no two live sessions share an identifier; and an identifier that was live and
  is no longer live is never live again, nor assigned again, however the run goes
  on.
\<close>

theorem ids_increasing_unique_never_reused:
  "sorted_wrt (<) (assigned_ids e init_server xs)
   \<and> distinct (map fst (clients (run e init_server xs)))
   \<and> (\<forall>ys zs p.
        p \<in> live_ids (run e init_server xs) \<and> p \<notin> live_ids (run e init_server (xs @ ys)) \<longrightarrow>
        p \<notin> live_ids (run e init_server (xs @ ys @ zs))
        \<and> p \<notin> set (assigned_ids e (run e init_server (xs @ ys)) zs))"
proof -
  let ?s0 = "run e init_server xs"
  have ok0: "registry_ok ?s0" using init_registry_ok by (rule run_registry_ok)
  have "p \<notin> live_ids (run e init_server (xs @ ys @ zs))
        \<and> p \<notin> set (assigned_ids e (run e init_server (xs @ ys)) zs)"
    if live: "p \<in> live_ids ?s0" and gone: "p \<notin> live_ids (run e init_server (xs @ ys))" for ys zs p
  proof -
    let ?s1 = "run e ?s0 ys"
    let ?s2 = "run e ?s1 zs"
    have lt0: "p < next_player_id ?s0" using ok0 live by (simp add: registry_ok_def)
    have "later ?s0 ?s1" by (rule run_later)
    then have lt1: "p < next_player_id ?s1" using lt0 by (simp add: later_def)
    have gone1: "p \<notin> live_ids ?s1" using gone by (simp add: run_append)
    have "later ?s1 ?s2" by (rule run_later)
    then have "p \<notin> live_ids ?s2" using gone1 lt1 by (auto simp: later_def)
    moreover have "p \<notin> set (assigned_ids e ?s1 zs)"
      using assigned_ids_bounds [of e ?s1 zs] lt1 by auto
    ultimately show ?thesis by (simp add: run_append)
  qed
  moreover have "distinct (map fst (clients ?s0))" using ok0 by (simp add: registry_ok_def)
  moreover have "sorted_wrt (<) (assigned_ids e init_server xs)"
    using assigned_ids_bounds [of e init_server xs] by simp
  ultimately show ?thesis by blast
qed

text \<open>
  Two sessions join as \<open>0\<close> and \<open>1\<close>, \<open>0\<close> is removed, and the next session is \<open>2\<close>.
\<close>

theorem ids_increasing_unique_never_reused_witness:
  "assigned_ids demo_env init_server
      [Accept 10 (''a'', 1), Accept 11 (''b'', 2), Remove 0, Accept 12 (''c'', 3)] = [0, 1, 2]
   \<and> 0 \<in> live_ids (run demo_env init_server [Accept 10 (''a'', 1), Accept 11 (''b'', 2)])
   \<and> 0 \<notin> live_ids (run demo_env init_server
             ([Accept 10 (''a'', 1), Accept 11 (''b'', 2)] @ [Remove 0]))
   \<and> 0 \<notin> live_ids (run demo_env init_server
             ([Accept 10 (''a'', 1), Accept 11 (''b'', 2)] @ [Remove 0] @ [Accept 12 (''c'', 3)]))
   \<and> 0 \<notin> set (assigned_ids demo_env
             (run demo_env init_server ([Accept 10 (''a'', 1), Accept 11 (''b'', 2)] @ [Remove 0]))
             [Accept 12 (''c'', 3)])
   \<and> live_ids (run demo_env init_server
             ([Accept 10 (''a'', 1), Accept 11 (''b'', 2)] @ [Remove 0] @ [Accept 12 (''c'', 3)]))
       = {1, 2}"
  using ids_increasing_unique_never_reused
          [of demo_env "[Accept 10 (''a'', 1), Accept 11 (''b'', 2)]"]
  by (simp add: eval_defs)

subsection \<open>Capacity\<close>

text \<open>
  C5. With \<^const>\<open>MAX_PLAYERS\<close> \<open>= 4\<close>: a connection accepted while the registry
  holds that many sessions is closed, and the call returns with the host as it
  was (no identifier allocated, no session registered) and nothing sent. A
  connection that is not registered and is not accepted later is written no
  frame by any later call. Along every run from the construction the registry
  holds at most \<open>4\<close> sessions.
\<close>

theorem capacity_bound:
  "(MAX_PLAYERS \<le> length (clients s) \<longrightarrow>
      accept_connection e s (c, a) = (Returned Rejected, s, [Closed c]))
   \<and> length (clients (run e init_server xs)) \<le> MAX_PLAYERS \<and> MAX_PLAYERS = 4
   \<and> (c \<notin> connections s \<and> c \<notin> arrivals ys \<longrightarrow> c \<notin> receivers (trace e s ys))"
proof -
  have "registry_ok (run e init_server xs)"
    using init_registry_ok by (rule run_registry_ok)
  then have "length (clients (run e init_server xs)) \<le> MAX_PLAYERS"
    by (simp add: registry_ok_def)
  moreover have "c \<notin> receivers (trace e s ys)" if "c \<notin> connections s" and "c \<notin> arrivals ys"
    using trace_receivers [of e s ys] that by auto
  ultimately show ?thesis
    by (simp add: accept_connection_full MAX_PLAYERS_def)
qed

text \<open>
  A fifth connection, \<open>14\<close>, meets four live sessions: it is closed, and the frames
  of the next tick, removal and accept go to the others.
\<close>

theorem capacity_bound_witness:
  "MAX_PLAYERS \<le> length (clients full_host)
   \<and> accept_connection demo_env full_host (14, (''e'', 5)) = (Returned Rejected, full_host, [Closed 14])
   \<and> 14 \<notin> connections full_host \<and> 14 \<notin> arrivals [Tick, Remove 0, Accept 15 (''f'', 6)]
   \<and> receivers (trace demo_env full_host [Tick, Remove 0, Accept 15 (''f'', 6)]) = {10, 11, 12, 13, 15}
   \<and> length (clients (run demo_env init_server
        [Accept 10 (''a'', 1), Accept 11 (''b'', 2), Accept 12 (''c'', 3), Accept 13 (''d'', 4),
         Accept 14 (''e'', 5)])) = 4"
  using capacity_bound [of full_host demo_env 14 "(''e'', 5)" "[Accept 10 (''a'', 1), Accept 11 (''b'', 2), Accept 12 (''c'', 3), Accept 13 (''d'', 4),
         Accept 14 (''e'', 5)]" "[Tick, Remove 0, Accept 15 (''f'', 6)]"]
  by (simp add: eval_defs full_host_def connections_def update_tick_eq insert_commute)

subsection \<open>Removal\<close>

text \<open>
  C6. Removing an identifier that is not registered changes nothing of the host
  and sends nothing (the call returns when the lock is free). A removal repeated
  right after a removal of the same identifier changes nothing and sends nothing,
  so \<^verbatim>\<open>player_left\<close> goes out at most once. And since an identifier that has
  left the registry never comes back, a removal of it stays without effect
  however the run has gone on in between.
\<close>

theorem remove_client_idempotent:
  "(p \<notin> live_ids s \<longrightarrow>
      remove_client e s p = (if lock s then Blocked else Returned (), s, []))
   \<and> snd (remove_client e (fst (snd (remove_client e s p))) p)
       = (fst (snd (remove_client e s p)), [])
   \<and> (p \<notin> live_ids s \<and> p < next_player_id s \<longrightarrow>
        snd (remove_client e (run e s xs) p) = (run e s xs, []))"
proof -
  have 1: "p \<notin> live_ids s \<longrightarrow>
      remove_client e s p = (if lock s then Blocked else Returned (), s, [])"
    by (simp add: remove_client_absent)
  have 2: "snd (remove_client e (fst (snd (remove_client e s p))) p)
       = (fst (snd (remove_client e s p)), [])"
    using remove_client_after [of e s p]
    by (auto simp: remove_client_absent remove_client_locked)
  have 3: "snd (remove_client e (run e s xs) p) = (run e s xs, [])"
    if "p \<notin> live_ids s" and "p < next_player_id s"
  proof -
    have "later s (run e s xs)" by (rule run_later)
    with that have "p \<notin> live_ids (run e s xs)" by (auto simp: later_def)
    then show ?thesis by (simp add: remove_client_absent)
  qed
  from 1 2 3 show ?thesis by blast
qed

text \<open>
  Identifier \<open>5\<close> is unknown to the scenario's host. Removing session \<open>0\<close> closes
  its connection and tells session \<open>1\<close>; removing it again does nothing, also
  after another session has joined.
\<close>

theorem remove_client_idempotent_witness:
  "5 \<notin> live_ids scenario_host
   \<and> remove_client demo_env scenario_host 5 = (Returned (), scenario_host, [])
   \<and> snd (snd (remove_client demo_env scenario_host 0))
       = [Closed 10, Sent True 11 [0, 0, 0, 1, 11]]
   \<and> snd (snd (remove_client demo_env (fst (snd (remove_client demo_env scenario_host 0))) 0)) = []
   \<and> 0 \<notin> live_ids (run demo_env init_server [Accept 10 (''a'', 1), Remove 0])
   \<and> 0 < next_player_id (run demo_env init_server [Accept 10 (''a'', 1), Remove 0])
   \<and> remove_client demo_env
        (run demo_env (run demo_env init_server [Accept 10 (''a'', 1), Remove 0]) [Accept 11 (''b'', 2)]) 0
       = (Returned (),
          run demo_env (run demo_env init_server [Accept 10 (''a'', 1), Remove 0]) [Accept 11 (''b'', 2)],
          [])"
  using remove_client_idempotent [of 5 scenario_host demo_env "[]"]
    remove_client_idempotent [of 0 scenario_host demo_env "[]"]
    remove_client_idempotent [of 0 "run demo_env init_server [Accept 10 (''a'', 1), Remove 0]"
      demo_env "[Accept 11 (''b'', 2)]"]
  by (simp add: eval_defs scenario_host_def)

subsection \<open>Joining\<close>

text \<open>
  C7 as stated does not hold: the session is registered, under the lock, before
  its welcome is sent, without the lock, so a tick of the broadcast loop that
  runs in between writes \<^verbatim>\<open>game_state\<close> to the new session first. With the
  stand-in for \<^verbatim>\<open>pickle\<close> a frame ends in the length of the type tag: \<open>10\<close> for
  \<^verbatim>\<open>game_state\<close>, \<open>7\<close> for \<^verbatim>\<open>welcome\<close>. Connection \<open>12\<close> is written the former
  by the tick, then the latter by the accept thread.
\<close>

theorem welcome_before_game_state_counterexample:
  "accept_register scenario_host (12, (''10.0.0.4'', 50002))
     = (Returned (Admitted 2), joining_host, [])
   \<and> frame demo_env
        \<lparr>mtype = ''game_state'', mdata = PDict (game_state joining_host), timestamp = 1\<rparr>
       = Some [0, 0, 0, 1, 10]
   \<and> update_tick demo_env joining_host
     = (Returned (), joining_host\<lparr>time_calls := 3\<rparr>,
        [Sent True 10 [0, 0, 0, 1, 10], Sent True 11 [0, 0, 0, 1, 10],
         Sent True 12 [0, 0, 0, 1, 10]])
   \<and> frame demo_env
        \<lparr>mtype = ''welcome'',
         mdata = PDict [(KStr ''player_id'', PInt 2),
                        (KStr ''game_state'', PDict (game_state joining_host))],
         timestamp = 3\<rparr>
       = Some [0, 0, 0, 1, 7]
   \<and> accept_welcome demo_env (joining_host\<lparr>time_calls := 3\<rparr>) 2 12
     = (Returned (), joining_host\<lparr>time_calls := 4\<rparr>, [Sent False 12 [0, 0, 0, 1, 7]])"
  by (simp add: joining_host_def scenario_host_def update_tick_eq eval_defs)

text \<open>
  C7, amended. On a host whose registry is in order, below capacity and with the
  lock free, for a connection that takes the welcome: the accept path allocates
  the next identifier and registers the session under it; the first frame it
  writes is the welcome to that session, carrying the identifier and the
  snapshot; then it writes \<^verbatim>\<open>player_joined\<close> with the identifier to every other
  live session that takes it, and, when none of them failed, nothing more and
  the handler thread is started (otherwise the removals of the failed sessions
  follow, sending under the lock). The new session is in the registry before
  its welcome is sent: a tick of the broadcast loop taken right after the
  registration writes \<^verbatim>\<open>game_state\<close> to it.
\<close>

theorem accept_welcomes_then_announces:
  assumes "registry_ok s" and "length (clients s) < MAX_PLAYERS" and "\<not> lock s"
    and "frame e \<lparr>mtype = ''welcome'',
                   mdata = PDict [(KStr ''player_id'', PInt (next_player_id s)),
                                  (KStr ''game_state'', PDict (game_state s))],
                   timestamp = clock e (time_calls s)\<rparr> = Some wframe"
    and "\<not> send_fails e c"
  shows "accept_register s (c, a) =
           (Returned (Admitted (next_player_id s)),
            s\<lparr>next_player_id := next_player_id s + 1,
              clients := clients s @ [(next_player_id s, c)],
              client_addresses := AList.update (next_player_id s) a (client_addresses s)\<rparr>,
            [])
       \<and> (\<exists>r s' cleanup.
            accept_connection e s (c, a) =
              (r, s',
               Sent False c wframe #
               written e False
                 \<lparr>mtype = ''player_joined'',
                  mdata = PDict [(KStr ''player_id'', PInt (next_player_id s))],
                  timestamp = clock e (Suc (time_calls s))\<rparr>
                 (clients s) @ cleanup)
            \<and> under_lock cleanup
            \<and> (failing e
                  \<lparr>mtype = ''player_joined'',
                   mdata = PDict [(KStr ''player_id'', PInt (next_player_id s))],
                   timestamp = clock e (Suc (time_calls s))\<rparr>
                  (clients s) = [] \<longrightarrow> cleanup = [] \<and> r = Returned (Admitted (next_player_id s))))
       \<and> (\<forall>gframe. frame e \<lparr>mtype = ''game_state'', mdata = PDict (game_state s),
                          timestamp = clock e (Suc (time_calls s))\<rparr> = Some gframe \<longrightarrow>
             Sent True c gframe \<in> set (snd (snd (update_tick e (fst (snd (accept_register s (c, a))))))))"
proof -
  define p where "p = next_player_id s"
  define s1 where "s1 = s\<lparr>next_player_id := p + 1,
      clients := clients s @ [(p, c)],
      client_addresses := AList.update p a (client_addresses s)\<rparr>"
  define joined where "joined = \<lparr>mtype = ''player_joined'',
      mdata = PDict [(KStr ''player_id'', PInt p)], timestamp = clock e (Suc (time_calls s))\<rparr>"
  have fresh: "p \<notin> fst ` set (clients s)"
    using assms(1) by (auto simp: registry_ok_def live_ids_def p_def)
  have reg: "accept_register s (c, a) = (Returned (Admitted p), s1, [])"
    using assms(2,3) by (simp add: accept_register_def Let_def s1_def p_def update_fresh [OF fresh [unfolded p_def]])
  define s2 where "s2 = s1\<lparr>time_calls := Suc (time_calls s)\<rparr>"
  have w: "accept_welcome e s1 p c = (Returned (), s2, [Sent False c wframe])"
    using assms(4,5) by (simp add: accept_welcome_def NetworkMessage_def send_to_client_frame s1_def s2_def p_def)
  define s3 where "s3 = s2\<lparr>time_calls := Suc (Suc (time_calls s))\<rparr>"
  have others: "filter (\<lambda>(q, c). Some p \<noteq> Some q) (clients s2) = clients s"
    using fresh by (force simp: s2_def s1_def filter_id_conv)
  obtain r3 s4 evs3 where re: "remove_each e s3 (failing e joined (clients s)) = (r3, s4, evs3)"
    by (cases "remove_each e s3 (failing e joined (clients s))") auto
  have ul: "under_lock evs3"
    using remove_each_sends [of s3 e "failing e joined (clients s)"] re by (simp add: locked_sends_def)
  have an: "accept_announce e s2 p = (r3, s4, written e False joined (clients s) @ evs3)"
    using re others
    by (simp add: accept_announce_def NetworkMessage_def broadcast_def send_each_eq joined_def s3_def s2_def s1_def)
  have ac: "accept_connection e s (c, a) =
      ((case r3 of Returned u \<Rightarrow> Returned (Admitted p) | Raised x \<Rightarrow> Raised x | Blocked \<Rightarrow> Blocked),
       s4, Sent False c wframe # written e False joined (clients s) @ evs3)"
    using reg w an by (cases r3) (simp_all add: accept_connection_def)
  have nodead: "evs3 = [] \<and> r3 = Returned ()" if "failing e joined (clients s) = []"
    using re that by simp
  have tick: "Sent True c gframe \<in> set (snd (snd (update_tick e s1)))"
    if "frame e \<lparr>mtype = ''game_state'', mdata = PDict (game_state s),
                          timestamp = clock e (Suc (time_calls s))\<rparr> = Some gframe" for gframe
    using that assms(3,5)
    by (simp add: update_tick_eq written_def s1_def)
  show ?thesis
    using reg ac ul nodead tick unfolding p_def [symmetric] joined_def [symmetric] s1_def [symmetric]
    by (auto simp: s1_def)
qed

theorem accept_welcomes_then_announces_witness:
  "registry_ok scenario_host \<and> length (clients scenario_host) < MAX_PLAYERS
   \<and> \<not> lock scenario_host \<and> \<not> send_fails demo_env 12
   \<and> frame demo_env
        \<lparr>mtype = ''welcome'',
         mdata = PDict [(KStr ''player_id'', PInt (next_player_id scenario_host)),
                        (KStr ''game_state'', PDict (game_state scenario_host))],
         timestamp = clock demo_env (time_calls scenario_host)\<rparr>
       = Some [0, 0, 0, 1, 7]
   \<and> accept_register scenario_host (12, (''10.0.0.4'', 50002))
     = (Returned (Admitted 2), joining_host, [])
   \<and> snd (snd (accept_connection demo_env scenario_host (12, (''10.0.0.4'', 50002))))
     = [Sent False 12 [0, 0, 0, 1, 7], Sent False 10 [0, 0, 0, 1, 13],
        Sent False 11 [0, 0, 0, 1, 13]]
   \<and> fst (accept_connection demo_env scenario_host (12, (''10.0.0.4'', 50002)))
     = Returned (Admitted 2)"
proof -
  have ok: "registry_ok scenario_host"
    by (simp add: registry_ok_def scenario_host_def live_ids_def MAX_PLAYERS_def)
  have room: "length (clients scenario_host) < MAX_PLAYERS"
    by (simp add: scenario_host_def MAX_PLAYERS_def)
  have free: "\<not> lock scenario_host" by (simp add: scenario_host_def)
  have takes: "\<not> send_fails demo_env 12" by (simp add: demo_env_simps)
  have wel: "frame demo_env
        \<lparr>mtype = ''welcome'',
         mdata = PDict [(KStr ''player_id'', PInt (next_player_id scenario_host)),
                        (KStr ''game_state'', PDict (game_state scenario_host))],
         timestamp = clock demo_env (time_calls scenario_host)\<rparr>
       = Some [0, 0, 0, 1, 7]"
    by (simp add: frame_demo)
  note joins = accept_welcomes_then_announces [OF ok room free wel takes, of "(''10.0.0.4'', 50002)"]
  have nobody: "failing demo_env m (clients scenario_host) = []" for m
    by (simp add: failing_def frame_demo demo_env_simps)
  have reg: "accept_register scenario_host (12, (''10.0.0.4'', 50002))
     = (Returned (Admitted 2), joining_host, [])"
    using joins by (simp add: scenario_host_def joining_host_def)
  have evs: "snd (snd (accept_connection demo_env scenario_host (12, (''10.0.0.4'', 50002))))
     = [Sent False 12 [0, 0, 0, 1, 7], Sent False 10 [0, 0, 0, 1, 13],
        Sent False 11 [0, 0, 0, 1, 13]]"
    and res: "fst (accept_connection demo_env scenario_host (12, (''10.0.0.4'', 50002)))
     = Returned (Admitted 2)"
    using joins nobody
    by (auto simp: written_def frame_demo demo_env_simps scenario_host_def)
  from ok room free takes wel reg evs res show ?thesis by simp
qed

subsection \<open>The lock and the network\<close>

text \<open>
  C8 as stated does not hold: the reactive broadcast of a routed message is
  written while the router holds the lock. Here an \<^verbatim>\<open>attack\<close> is rebroadcast
  as \<^verbatim>\<open>player_attack\<close> to both sessions of the scenario, each send made under
  the lock.
\<close>

theorem lock_held_during_sends_counterexample:
  "process_message demo_env scenario_host 0 attack_message =
     (Returned (), scenario_host\<lparr>time_calls := 1\<rparr>,
      [Sent True 10 [0, 0, 0, 1, 13], Sent True 11 [0, 0, 0, 1, 13]])"
  by (simp add: process_message_def attack_effect_def attack_message_def scenario_host_def
      broadcast_held broadcast_locked_eq eval_defs)

text \<open>
  C8, amended. The lock is held across the whole of a routed message's effect
  with the broadcast it emits, across the periodic \<^verbatim>\<open>game_state\<close> broadcast and
  across a removal with its \<^verbatim>\<open>player_left\<close> broadcast: every send of these calls
  is made with the lock held. \<^verbatim>\<open>update_game_state\<close> sends nothing. Only the
  welcome and the \<^verbatim>\<open>player_joined\<close> broadcast of the accept path are sent
  without the lock (the removals that clean up after that broadcast send under
  it again).
\<close>

theorem sends_and_the_lock:
  "under_lock (snd (snd (process_message e s p m)))
   \<and> under_lock (snd (snd (update_tick e s)))
   \<and> under_lock (snd (snd (remove_client e s p)))
   \<and> snd (snd (update_game_state s u)) = []
   \<and> (snd (snd (accept_welcome e s p c)) = []
       \<or> (\<exists>f. snd (snd (accept_welcome e s p c)) = [Sent False c f]))
   \<and> (\<exists>cleanup.
        snd (snd (accept_announce e s p)) =
          written e False
            \<lparr>mtype = ''player_joined'', mdata = PDict [(KStr ''player_id'', PInt p)],
             timestamp = clock e (time_calls s)\<rparr>
            (filter (\<lambda>(q, c). q \<noteq> p) (clients s)) @ cleanup
        \<and> under_lock cleanup)"
proof -
  have 1: "under_lock (snd (snd (process_message e s p m)))"
    using process_message_sends [of s e p m] by (simp add: locked_sends_def)
  have 2: "under_lock (snd (snd (update_tick e s)))"
    using update_tick_sends [of s e] by (simp add: locked_sends_def)
  have 3: "under_lock (snd (snd (remove_client e s p)))"
    using remove_client_sends [of s e p] by (simp add: locked_sends_def)
  have 4: "snd (snd (update_game_state s u)) = []"
    by (simp add: update_game_state_def)
  have 5: "snd (snd (accept_welcome e s p c)) = []
       \<or> (\<exists>f. snd (snd (accept_welcome e s p c)) = [Sent False c f])"
    by (auto simp: accept_welcome_def NetworkMessage_def send_to_client_frame split: option.splits)
  have 6: "\<exists>cleanup.
        snd (snd (accept_announce e s p)) =
          written e False
            \<lparr>mtype = ''player_joined'', mdata = PDict [(KStr ''player_id'', PInt p)],
             timestamp = clock e (time_calls s)\<rparr>
            (filter (\<lambda>(q, c). q \<noteq> p) (clients s)) @ cleanup
        \<and> under_lock cleanup"
    using broadcast_sends [of e False "s\<lparr>time_calls := Suc (time_calls s)\<rparr>"
        "\<lparr>mtype = ''player_joined'', mdata = PDict [(KStr ''player_id'', PInt p)],
             timestamp = clock e (time_calls s)\<rparr>" "Some p"]
    by (auto simp: accept_announce_def NetworkMessage_def locked_sends_def eq_commute [of p])
  from 1 2 3 4 5 6 show ?thesis by blast
qed

theorem sends_and_the_lock_witness:
  "snd (snd (process_message demo_env scenario_host 0 attack_message))
     = [Sent True 10 [0, 0, 0, 1, 13], Sent True 11 [0, 0, 0, 1, 13]]
   \<and> under_lock (snd (snd (process_message demo_env scenario_host 0 attack_message)))
   \<and> snd (snd (update_tick demo_env scenario_host))
     = [Sent True 10 [0, 0, 0, 1, 10], Sent True 11 [0, 0, 0, 1, 10]]
   \<and> under_lock (snd (snd (update_tick demo_env scenario_host)))
   \<and> snd (snd (accept_welcome demo_env scenario_host 2 12)) = [Sent False 12 [0, 0, 0, 1, 7]]"
  using sends_and_the_lock [of demo_env scenario_host 0 attack_message "[]" 12]
  by (simp add: process_message_def attack_effect_def attack_message_def scenario_host_def
      update_tick_eq broadcast_held broadcast_locked_eq eval_defs)

subsection \<open>The collaborator's update\<close>

text \<open>
  C9. \<^verbatim>\<open>update_game_state\<close> merges at the top level only. Called with the lock
  free and a dict \<open>u\<close> (an association list with distinct keys), it returns, sends
  nothing and changes nothing of the host but the snapshot; in the new snapshot
  every key of \<open>u\<close> holds exactly the value \<open>u\<close> gives it, whatever was stored under
  that key before, and every other key holds what it held.
\<close>

theorem update_game_state_shallow_merge:
  assumes "\<not> lock s" and "distinct (map fst u)"
  shows "update_game_state s u = (Returned (), s\<lparr>game_state := dict_update (game_state s) u\<rparr>, [])
       \<and> (\<forall>k. map_of (dict_update (game_state s) u) k =
                (case map_of u k of Some v \<Rightarrow> Some v | None \<Rightarrow> map_of (game_state s) k))"
  using assms
  by (simp add: update_game_state_def map_of_dict_update map_add_def)

theorem update_game_state_shallow_merge_witness:
  "\<not> lock scenario_host
   \<and> distinct (map fst [(KStr ''enemies'', PDict [(KInt 8, PDict [(KStr ''hp'', PInt 10)])])])
   \<and> update_game_state scenario_host
        [(KStr ''enemies'', PDict [(KInt 8, PDict [(KStr ''hp'', PInt 10)])])]
      = (Returned (),
         scenario_host\<lparr>game_state :=
           [(KStr ''players'', PDict []),
            (KStr ''enemies'', PDict [(KInt 8, PDict [(KStr ''hp'', PInt 10)])]),
            (KStr ''items'', PDict [])]\<rparr>,
         [])
   \<and> map_of [(KStr ''players'', PDict []),
               (KStr ''enemies'', PDict [(KInt 8, PDict [(KStr ''hp'', PInt 10)])]),
               (KStr ''items'', PDict [])] (KStr ''enemies'')
       = Some (PDict [(KInt 8, PDict [(KStr ''hp'', PInt 10)])])"
proof -
  have free: "\<not> lock scenario_host" by (simp add: scenario_host_def)
  have keys: "distinct (map fst [(KStr ''enemies'', PDict [(KInt 8, PDict [(KStr ''hp'', PInt 10)])])])"
    by simp
  note merged = update_game_state_shallow_merge [OF free keys]
  have new: "dict_update (game_state scenario_host)
        [(KStr ''enemies'', PDict [(KInt 8, PDict [(KStr ''hp'', PInt 10)])])]
      = [(KStr ''players'', PDict []),
         (KStr ''enemies'', PDict [(KInt 8, PDict [(KStr ''hp'', PInt 10)])]),
         (KStr ''items'', PDict [])]"
    by (simp add: scenario_host_def dict_update_def)
  from merged new free keys show ?thesis by simp
qed

subsection \<open>Messages that do not apply\<close>

text \<open>
  C10. Routed with the lock free, a message whose type is none of
  \<^verbatim>\<open>player_update\<close>, \<^verbatim>\<open>attack\<close>, \<^verbatim>\<open>enemy_damage\<close>, \<^verbatim>\<open>pickup_item\<close> returns with
  the host unchanged and nothing sent. So does an \<^verbatim>\<open>enemy_damage\<close> whose enemy
  id is not a key of the snapshot's enemies, and a \<^verbatim>\<open>pickup_item\<close> whose item
  id is not a key of the snapshot's items (the table being a dict, or missing):
  the host is unchanged and nothing is sent. Such a call returns unless the
  payload has no \<open>damage\<close> entry to read or the id is unhashable, in which cases
  the error of that read is raised.
\<close>

theorem router_ignores_inapplicable:
  assumes "\<not> lock s"
  shows "(mtype m \<notin> {''player_update'', ''attack'', ''enemy_damage'', ''pickup_item''} \<longrightarrow>
            process_message e s player_id m = (Returned (), s, []))
       \<and> (mtype m = ''enemy_damage''
            \<and> subscript (mdata m) ''enemy_id'' = Inr enemy_id
            \<and> dict_get (game_state s) (KStr ''enemies'') (PDict []) = PDict enemies
            \<and> (\<forall>k. py_key enemy_id = Some k \<longrightarrow> map_of enemies k = None) \<longrightarrow>
            process_message e s player_id m =
              ((case subscript (mdata m) ''damage'' of
                  Inl x \<Rightarrow> Raised x
                | Inr damage \<Rightarrow> if py_key enemy_id = None then Raised TypeError else Returned ()),
               s, []))
       \<and> (mtype m = ''pickup_item''
            \<and> subscript (mdata m) ''item_id'' = Inr item_id
            \<and> dict_get (game_state s) (KStr ''items'') (PDict []) = PDict items
            \<and> (\<forall>k. py_key item_id = Some k \<longrightarrow> map_of items k = None) \<longrightarrow>
            process_message e s player_id m =
              (if py_key item_id = None then Raised TypeError else Returned (), s, []))"
  using assms
  by (auto simp: process_message_def enemy_damage_effect_def pickup_item_effect_def release_def
      split: sum.splits option.splits)

theorem router_ignores_inapplicable_witness:
  "\<not> lock scenario_host
   \<and> mtype chat_message \<notin> {''player_update'', ''attack'', ''enemy_damage'', ''pickup_item''}
   \<and> process_message demo_env scenario_host 0 chat_message = (Returned (), scenario_host, [])
   \<and> mtype stray_damage = ''enemy_damage''
   \<and> subscript (mdata stray_damage) ''enemy_id'' = Inr (PInt 99)
   \<and> dict_get (game_state scenario_host) (KStr ''enemies'') (PDict [])
       = PDict [(KInt 7, PDict [(KStr ''hp'', PInt 60)])]
   \<and> map_of [(KInt 7, PDict [(KStr ''hp'', PInt 60)])] (KInt 99) = None
   \<and> process_message demo_env scenario_host 0 stray_damage = (Returned (), scenario_host, [])
   \<and> mtype stray_pickup = ''pickup_item''
   \<and> subscript (mdata stray_pickup) ''item_id'' = Inr (PInt 3)
   \<and> dict_get (game_state scenario_host) (KStr ''items'') (PDict []) = PDict []
   \<and> process_message demo_env scenario_host 0 stray_pickup = (Returned (), scenario_host, [])"
  using router_ignores_inapplicable [where s = scenario_host and m = chat_message
      and e = demo_env and player_id = 0]
    router_ignores_inapplicable [where s = scenario_host and m = stray_damage
      and e = demo_env and player_id = 0 and enemy_id = "PInt 99"
      and enemies = "[(KInt 7, PDict [(KStr ''hp'', PInt 60)])]"]
    router_ignores_inapplicable [where s = scenario_host and m = stray_pickup
      and e = demo_env and player_id = 0 and item_id = "PInt 3" and items = "[]"]
  by (simp add: scenario_host_def chat_message_def stray_damage_def stray_pickup_def dict_get_def)

end
